theory Spec2Isabelle
  imports Complex_Main "HOL-Library.Sublist"
begin

section \<open>The document upload pipeline of \<open>rag-chat-ui/app/api/upload/route.ts\<close>\<close>

text \<open>
  The route reads an uploaded document, cuts its text into overlapping chunks
  (\<open>splitTextIntoChunks\<close>), embeds every chunk through an external service with a bounded
  retry (\<open>generateEmbeddingWithRetry\<close>, \<open>processChunksInBatches\<close>) and stores the vectors
  in batches (\<open>POST\<close>).

  A JavaScript string is modelled as a \<open>string\<close> whose characters are the code units
  \<open>0 .. 255\<close>; \<open>length\<close> and indexing then agree with JavaScript's. Documents with
  code units above \<open>255\<close> are outside the model. Indices, \<open>maxChars\<close> and \<open>overlap\<close> are
  natural numbers.
\<close>

subsection \<open>Constants of the module\<close>

definition BATCH_SIZE :: nat where
  "BATCH_SIZE = 10"

definition DELAY_BETWEEN_BATCHES :: nat where
  "DELAY_BETWEEN_BATCHES = 5000"

definition MAX_RETRIES :: nat where
  "MAX_RETRIES = 3"

definition BASE_RETRY_DELAY :: nat where
  "BASE_RETRY_DELAY = 1000"

definition UPSERT_BATCH_SIZE :: nat where
  "UPSERT_BATCH_SIZE = 100"

subsection \<open>String primitives\<close>

text \<open>
  The white space of the regular expression class \<open>\s\<close> and of \<open>trim\<close>, below code unit
  256: tab, line feed, vertical tab, form feed, carriage return, space and no-break space.
\<close>

definition isWhitespace :: "char \<Rightarrow> bool" where
  "isWhitespace c = ((of_char c :: nat) \<in> {9, 10, 11, 12, 13, 32, 160})"

text \<open>
  \<open>c === c.toUpperCase()\<close> for a one-character string: false exactly for the characters
  that upper-casing changes (\<open>a .. z\<close>, the micro sign, sharp s, and the lower-case
  letters \<open>0xE0 .. 0xFF\<close> other than the division sign).
\<close>

definition unchangedByToUpperCase :: "char \<Rightarrow> bool" where
  "unchangedByToUpperCase c =
     (let n = (of_char c :: nat)
      in \<not> (97 \<le> n \<and> n \<le> 122) \<and> n \<noteq> 181 \<and> n \<noteq> 223
         \<and> \<not> (224 \<le> n \<and> n \<le> 246) \<and> \<not> (248 \<le> n \<and> n \<le> 255))"

text \<open>\<open>s[i]\<close>: \<open>undefined\<close> (here \<open>None\<close>) outside the string.\<close>

definition charAt :: "string \<Rightarrow> nat \<Rightarrow> char option" where
  "charAt s i = (if i < length s then Some (s ! i) else None)"

text \<open>\<open>s.slice(a, b)\<close> of a string or an array, for non-negative \<open>a\<close> and \<open>b\<close>; empty
  when \<open>b \<le> a\<close>.\<close>

definition slice :: "'a list \<Rightarrow> nat \<Rightarrow> nat \<Rightarrow> 'a list" where
  "slice s a b = take (b - a) (drop a s)"

definition trim :: "string \<Rightarrow> string" where
  "trim s = rev (dropWhile isWhitespace (rev (dropWhile isWhitespace s)))"

text \<open>\<open>.replace(/\r\n/g, '\n')\<close>\<close>

fun replaceCRLF :: "string \<Rightarrow> string" where
  "replaceCRLF (c # d # cs) =
     (if c = CHR 0x0D \<and> d = CHR 0x0A then CHR 0x0A # replaceCRLF cs
      else c # replaceCRLF (d # cs))"
| "replaceCRLF cs = cs"

text \<open>\<open>.replace(/\r/g, '\n')\<close>\<close>

definition replaceCR :: "string \<Rightarrow> string" where
  "replaceCR s = map (\<lambda>c. if c = CHR 0x0D then CHR 0x0A else c) s"

text \<open>\<open>.replace(/\s+/g, ' ')\<close>: every maximal run of white space becomes one space.\<close>

function collapseWhitespace :: "string \<Rightarrow> string" where
  "collapseWhitespace [] = []"
| "collapseWhitespace (c # cs) =
     (if isWhitespace c then CHR '' '' # collapseWhitespace (dropWhile isWhitespace cs)
      else c # collapseWhitespace cs)"
  by pat_completeness auto
termination
  by (relation "measure length") (auto simp: length_dropWhile_le less_Suc_eq_le)

definition cleanText :: "string \<Rightarrow> string" where
  "cleanText text = trim (collapseWhitespace (replaceCR (replaceCRLF text)))"

subsection \<open>splitTextIntoChunks\<close>

text \<open>
  \<open>Math.max(startIndex + maxChars - 200, startIndex + maxChars * 0.7)\<close>. The loops compare
  it with an integer \<open>i\<close> by \<open>i >= searchStart\<close>, so only its ceiling matters; the
  first argument may be negative in the source, where the second, which is not, wins.
\<close>

definition searchStartOf :: "nat \<Rightarrow> nat \<Rightarrow> nat" where
  "searchStartOf startIndex maxChars =
     max (startIndex + maxChars - 200) (startIndex + (7 * maxChars + 9) div 10)"

text \<open>The indices \<open>endIndex, endIndex - 1, ..., searchStart\<close> both \<open>for\<close> loops visit.\<close>

definition scanIndices :: "nat \<Rightarrow> nat \<Rightarrow> nat list" where
  "scanIndices endIndex searchStart = rev [searchStart ..< Suc endIndex]"

text \<open>The test of the first loop: a terminator, then a space, then a character that
  exists and equals its own upper-casing.\<close>

definition sentenceEndAt :: "string \<Rightarrow> nat \<Rightarrow> bool" where
  "sentenceEndAt cleanedText i =
     (charAt cleanedText i \<in> {Some CHR ''.'', Some CHR ''!'', Some CHR ''?''}
      \<and> charAt cleanedText (i + 1) = Some CHR '' ''
      \<and> (case charAt cleanedText (i + 2) of
            None \<Rightarrow> False
          | Some charAfterNext \<Rightarrow> unchangedByToUpperCase charAfterNext))"

definition sentenceCut :: "string \<Rightarrow> nat \<Rightarrow> nat \<Rightarrow> nat" where
  "sentenceCut cleanedText endIndex searchStart =
     (case find (sentenceEndAt cleanedText) (scanIndices endIndex searchStart) of
        Some i \<Rightarrow> i + 1
      | None \<Rightarrow> endIndex)"

definition wordCut :: "string \<Rightarrow> nat \<Rightarrow> nat \<Rightarrow> nat" where
  "wordCut cleanedText endIndex searchStart =
     (case find (\<lambda>i. charAt cleanedText i = Some CHR '' '') (scanIndices endIndex searchStart) of
        Some i \<Rightarrow> i
      | None \<Rightarrow> endIndex)"

text \<open>\<open>chunkEndIndex\<close> of one iteration that is not the last (lines 48 to 74).\<close>

definition chunkEndIndexOf :: "string \<Rightarrow> nat \<Rightarrow> nat \<Rightarrow> nat" where
  "chunkEndIndexOf cleanedText maxChars startIndex =
     (let endIndex = startIndex + maxChars;
          searchStart = searchStartOf startIndex maxChars;
          chunkEndIndex = sentenceCut cleanedText endIndex searchStart
      in if chunkEndIndex = endIndex then wordCut cleanedText endIndex searchStart
         else chunkEndIndex)"

text \<open>The cursor after an iteration that is not the last (lines 85 to 91).\<close>

definition nextStartIndex :: "nat \<Rightarrow> nat \<Rightarrow> nat \<Rightarrow> nat" where
  "nextStartIndex overlap startIndex chunkEndIndex =
     (let nextStart = max (chunkEndIndex - overlap) (startIndex + 1)
      in if nextStart \<ge> chunkEndIndex then chunkEndIndex else nextStart)"

definition pushIfSubstantial :: "string list \<Rightarrow> string \<Rightarrow> string list" where
  "pushIfSubstantial chunks chunk = (if length chunk > 50 then chunks @ [chunk] else chunks)"

text \<open>
  The \<open>while\<close> loop. It need not end (with \<open>maxChars = 0\<close> the cursor can stay where it
  is), so the loop is a partial function and \<open>None\<close> stands for a run that never returns.
\<close>

partial_function (option) chunkLoop ::
  "string \<Rightarrow> nat \<Rightarrow> nat \<Rightarrow> nat \<Rightarrow> string list \<Rightarrow> string list option" where
  "chunkLoop cleanedText maxChars overlap startIndex chunks =
     (if startIndex < length cleanedText then
        (if startIndex + maxChars \<ge> length cleanedText then
           Some (pushIfSubstantial chunks (trim (drop startIndex cleanedText)))
         else
           (let chunkEndIndex = chunkEndIndexOf cleanedText maxChars startIndex;
                chunk = trim (slice cleanedText startIndex chunkEndIndex)
            in chunkLoop cleanedText maxChars overlap
                 (nextStartIndex overlap startIndex chunkEndIndex)
                 (pushIfSubstantial chunks chunk)))
      else Some chunks)"

declare chunkLoop.simps [code]

definition splitTextIntoChunks :: "string \<Rightarrow> nat \<Rightarrow> nat \<Rightarrow> string list option" where
  "splitTextIntoChunks text maxChars overlap =
     (let cleanedText = cleanText text
      in if length cleanedText \<le> maxChars then Some [cleanedText]
         else map_option (filter (\<lambda>chunk. length chunk \<ge> 50))
                (chunkLoop cleanedText maxChars overlap 0 []))"

subsection \<open>generateEmbeddingWithRetry\<close>

text \<open>
  One call of \<open>genAI.models.embedContent\<close> either answers, and then
  \<open>result.embeddings?.[0]?.values\<close> is an array or \<open>undefined\<close> (\<open>None\<close>), or throws. The
  numbers of a vector are passed through untouched, so their type is a parameter.

  The \<open>catch\<close> clause takes a value of type \<open>unknown\<close>. What it does with it depends on
  whether the value is an \<open>Error\<close>, on what its \<open>message\<close> is (a string; \<open>undefined\<close> or
  \<open>null\<close>; or something else that has no method \<open>includes\<close>, a number for one; a
  message that is an array, with an \<open>includes\<close> of its own, is left out), and, for a
  value that is not an \<open>Error\<close>, on what \<open>String(error)\<close> gives: a string, or an
  exception (\<open>None\<close>), as for \<open>Object.create(null)\<close>.
\<close>

datatype message = StringMessage string | NullishMessage | OtherMessage

datatype thrown = ErrorInstance message | OtherValue "string option"

datatype 'f api_outcome = Responded "'f list option" | Threw thrown

text \<open>What a run does besides returning: the calls of the service and the waits, in order.\<close>

datatype event = ApiCall nat | Delay nat

text \<open>\<open>error instanceof Error ? error.message : String(error)\<close> (line 125); \<open>Inl\<close> when
  \<open>String\<close> throws.\<close>

definition errorMessageOf :: "thrown \<Rightarrow> string + message" where
  "errorMessageOf error =
     (case error of
        ErrorInstance m \<Rightarrow> Inr m
      | OtherValue (Some s) \<Rightarrow> Inr (StringMessage s)
      | OtherValue None \<Rightarrow> Inl ''TypeError: Cannot convert object to primitive value'')"

definition isRateLimitMessage :: "string \<Rightarrow> bool" where
  "isRateLimitMessage errorMessage =
     (sublist ''429'' errorMessage \<or> sublist ''Too Many Requests'' errorMessage)"

text \<open>
  \<open>errorMessage?.includes('429') || errorMessage?.includes('Too Many Requests')\<close> (line
  127): \<open>?.\<close> gives \<open>undefined\<close> on a message that is \<open>undefined\<close> or \<open>null\<close>, and the
  call throws on a message that has no method \<open>includes\<close>.
\<close>

definition includesRateLimit :: "message \<Rightarrow> string + bool" where
  "includesRateLimit errorMessage =
     (case errorMessage of
        StringMessage s \<Rightarrow> Inr (isRateLimitMessage s)
      | NullishMessage \<Rightarrow> Inr False
      | OtherMessage \<Rightarrow> Inl ''TypeError: errorMessage?.includes is not a function'')"

text \<open>
  The service is a parameter: \<open>embedContent chunk retryCount\<close> is the outcome of the call
  made for \<open>chunk\<close> at retry \<open>retryCount\<close>. The result is \<open>Inl\<close> when an exception leaves
  the function and \<open>Inr\<close> of the returned value (\<open>None\<close> for \<open>null\<close>) otherwise. Lines 125
  and 127 are inside the \<open>catch\<close> clause, under no \<open>try\<close>: what they throw leaves the
  function.
\<close>

function generateEmbeddingWithRetry ::
  "(string \<Rightarrow> nat \<Rightarrow> 'f api_outcome) \<Rightarrow> string \<Rightarrow> nat \<Rightarrow> (string + 'f list option) \<times> event list" where
  "generateEmbeddingWithRetry embedContent chunk retryCount =
     (case embedContent chunk retryCount of
        Responded embedding \<Rightarrow>
          (Inr (case embedding of
                  None \<Rightarrow> None
                | Some vs \<Rightarrow> if length vs > 0 then Some vs else None),
           [ApiCall retryCount])
      | Threw error \<Rightarrow>
          (case errorMessageOf error of
             Inl typeError \<Rightarrow> (Inl typeError, [ApiCall retryCount])
           | Inr errorMessage \<Rightarrow>
               (case includesRateLimit errorMessage of
                  Inl typeError \<Rightarrow> (Inl typeError, [ApiCall retryCount])
                | Inr rateLimited \<Rightarrow>
                    if rateLimited then
                      if retryCount < MAX_RETRIES then
                        (let retryDelay = BASE_RETRY_DELAY * 2 ^ retryCount;
                             retried = generateEmbeddingWithRetry embedContent chunk
                                         (retryCount + 1)
                         in (fst retried, [ApiCall retryCount, Delay retryDelay] @ snd retried))
                      else (Inr None, [ApiCall retryCount])
                    else (Inr None, [ApiCall retryCount]))))"
  by pat_completeness auto
termination
  by (relation "measure (\<lambda>(embedContent, chunk, retryCount). MAX_RETRIES - retryCount)") auto

declare generateEmbeddingWithRetry.simps [simp del]

subsection \<open>processChunksInBatches\<close>

text \<open>
  The fields \<open>text\<close>, \<open>values\<close> and \<open>id\<close> of the source are \<open>chunk_text\<close>, \<open>vec_values\<close>
  and \<open>vec_id\<close> here.
\<close>

record metadata =
  chunk_text :: string
  source :: string
  chunk_index :: nat
  total_chunks :: nat
  timestamp :: string
  batch_number :: nat

record 'f embedding_vector =
  vec_id :: string
  vec_values :: "'f list"
  vec_metadata :: metadata

text \<open>
  What the function takes from outside, each indexed by the global index of the chunk it
  serves: the embedding service, \<open>uuidv4()\<close> and \<open>new Date().toISOString()\<close>. The calls
  of one batch run concurrently, but in one run the service is called at most once for
  each chunk index and retry count, so what it does in that run is a function of the two.
\<close>

record 'f services =
  embedContent :: "nat \<Rightarrow> string \<Rightarrow> nat \<Rightarrow> 'f api_outcome"
  uuidv4 :: "nat \<Rightarrow> string"
  toISOString :: "nat \<Rightarrow> string"

text \<open>The object a chunk becomes once it has an embedding (lines 174 to 185).\<close>

definition makeVector ::
  "'f services \<Rightarrow> string \<Rightarrow> nat \<Rightarrow> nat \<Rightarrow> nat \<Rightarrow> string \<Rightarrow> 'f list \<Rightarrow> 'f embedding_vector" where
  "makeVector sv fileName totalChunks batchNumber globalIndex chunk embedding =
     \<lparr>vec_id = uuidv4 sv globalIndex,
      vec_values = embedding,
      vec_metadata = \<lparr>chunk_text = chunk,
                      source = fileName,
                      chunk_index = globalIndex,
                      total_chunks = totalChunks,
                      timestamp = toISOString sv globalIndex,
                      batch_number = batchNumber\<rparr>\<rparr>"

text \<open>The body of \<open>batch.map(async (chunk, batchIndex) => ...)\<close>.\<close>

definition embedChunk ::
  "'f services \<Rightarrow> string \<Rightarrow> nat \<Rightarrow> nat \<Rightarrow> nat \<Rightarrow> nat \<times> string
     \<Rightarrow> string + 'f embedding_vector option" where
  "embedChunk sv fileName totalChunks batchNumber i p =
     (let batchIndex = fst p; chunk = snd p; globalIndex = i + batchIndex
      in case fst (generateEmbeddingWithRetry (embedContent sv globalIndex) chunk 0) of
           Inl e \<Rightarrow> Inl e
         | Inr None \<Rightarrow> Inr None
         | Inr (Some embedding) \<Rightarrow>
             Inr (Some (makeVector sv fileName totalChunks batchNumber globalIndex chunk
                          embedding)))"

text \<open>\<open>Promise.all\<close>: the results in the order of the promises, or a rejection.\<close>

fun promiseAll :: "(string + 'a) list \<Rightarrow> string + 'a list" where
  "promiseAll [] = Inr []"
| "promiseAll (Inl e # ps) = Inl e"
| "promiseAll (Inr x # ps) = (case promiseAll ps of Inl e \<Rightarrow> Inl e | Inr xs \<Rightarrow> Inr (x # xs))"

text \<open>\<open>batchResults.filter(result => result !== null)\<close>\<close>

definition validResultsOf :: "'a option list \<Rightarrow> 'a list" where
  "validResultsOf batchResults = List.map_filter (\<lambda>result. result) batchResults"

text \<open>
  The \<open>for\<close> loop over the batches. Beside the vectors it returns the batches it went
  through, each with its number (the line \<open>Processing batch n/N\<close> of the log). The two
  pacing delays and the progress callback change no value and are left out.
\<close>

function processLoop ::
  "'f services \<Rightarrow> string list \<Rightarrow> string \<Rightarrow> nat \<Rightarrow> 'f embedding_vector list \<Rightarrow> (nat \<times> string list) list
     \<Rightarrow> string + 'f embedding_vector list \<times> (nat \<times> string list) list" where
  "processLoop sv chunks fileName i vectors batches =
     (if i < length chunks then
        (let batch = slice chunks i (i + BATCH_SIZE);
             batchNumber = i div BATCH_SIZE + 1;
             batchPromises = map (embedChunk sv fileName (length chunks) batchNumber i)
                               (zip [0 ..< length batch] batch)
         in case promiseAll batchPromises of
              Inl e \<Rightarrow> Inl e
            | Inr batchResults \<Rightarrow>
                processLoop sv chunks fileName (i + BATCH_SIZE)
                  (vectors @ validResultsOf batchResults)
                  (batches @ [(batchNumber, batch)]))
      else Inr (vectors, batches))"
  by pat_completeness auto
termination
  by (relation "measure (\<lambda>(sv, chunks, fileName, i, vectors, batches). length chunks - i)")
     (auto simp: BATCH_SIZE_def)

declare processLoop.simps [simp del]

definition processChunksInBatches ::
  "'f services \<Rightarrow> string list \<Rightarrow> string
     \<Rightarrow> string + 'f embedding_vector list \<times> (nat \<times> string list) list" where
  "processChunksInBatches sv chunks fileName = processLoop sv chunks fileName 0 [] []"

subsection \<open>The POST handler\<close>

text \<open>
  The uploaded file as the handler sees it: its name, its size, and \<open>file_text\<close>, the text
  that \<open>arrayBuffer\<close> followed by \<open>pdf-parse\<close> or \<open>TextDecoder\<close> gives, \<open>None\<close> when
  reading or parsing throws. \<open>formData\<close> is \<open>None\<close> when \<open>request.formData()\<close> throws, and
  \<open>Some None\<close> when the form has no \<open>document\<close>.
\<close>

record upload_file =
  file_name :: string
  file_size :: nat
  file_text :: "string option"

record request =
  apiKeyConfigured :: bool
  formData :: "upload_file option option"

datatype body = ErrorBody string | OkBody nat nat

record response =
  status :: nat
  body :: body

text \<open>
  The Pinecone index: the vectors it holds and the \<open>upsert\<close> calls it has received. An
  \<open>upsert\<close> that throws stores nothing.
\<close>

record 'f index_state =
  stored :: "'f embedding_vector list"
  upsertCalls :: "'f embedding_vector list list"

text \<open>
  The surroundings of one request: the services of \<open>processChunksInBatches\<close>, whether
  \<open>getPineconeIndex()\<close> (module \<open>lib/pinecone\<close>) throws, and which \<open>upsert\<close> calls of this
  request throw, counted from 0.
\<close>

record 'f world =
  svc :: "'f services"
  getPineconeIndexThrows :: bool
  upsertThrows :: "nat \<Rightarrow> bool"

definition errorResponse :: "nat \<Rightarrow> string \<Rightarrow> response" where
  "errorResponse code message = \<lparr>status = code, body = ErrorBody message\<rparr>"

definition internalServerError :: response where
  "internalServerError =
     errorResponse 500 ''Internal server error during file upload. Please try again.''"

definition noContentExtracted :: response where
  "noContentExtracted = errorResponse 400 ''No content could be extracted from the document''"

definition failedToProcessAnyChunks :: response where
  "failedToProcessAnyChunks =
     errorResponse 500 (''Failed to process any chunks from the document. This may be due to ''
       @ ''API rate limits. Please try again with a smaller document or wait a few minutes.'')"

definition failedToStore :: response where
  "failedToStore =
     errorResponse 500 ''Failed to store document in the knowledge base. Please try again.''"

text \<open>The success answer: status 200, \<open>chunks\<close> and \<open>fileInfo.totalChunks\<close>.\<close>

definition okResponse :: "nat \<Rightarrow> nat \<Rightarrow> response" where
  "okResponse chunksCreated totalChunks = \<lparr>status = 200, body = OkBody chunksCreated totalChunks\<rparr>"

definition toLowerCaseChar :: "char \<Rightarrow> char" where
  "toLowerCaseChar c =
     (let n = (of_char c :: nat)
      in if (65 \<le> n \<and> n \<le> 90) \<or> (192 \<le> n \<and> n \<le> 222 \<and> n \<noteq> 215) then char_of (n + 32)
         else c)"

text \<open>\<open>'.' + file.name.split('.').pop()?.toLowerCase()\<close>\<close>

definition fileExtensionOf :: "string \<Rightarrow> string" where
  "fileExtensionOf name =
     ''.'' @ map toLowerCaseChar (rev (takeWhile (\<lambda>c. c \<noteq> CHR ''.'') (rev name)))"

definition allowedTypes :: "string list" where
  "allowedTypes = [''.pdf'', ''.txt'', ''.md'']"

text \<open>Lines 210 to 292: every check before the text is split.\<close>

definition receiveDocument :: "request \<Rightarrow> response + upload_file \<times> string" where
  "receiveDocument req =
     (if \<not> apiKeyConfigured req then Inl (errorResponse 500 ''Google API key is not configured'')
      else case formData req of
        None \<Rightarrow> Inl internalServerError
      | Some None \<Rightarrow> Inl (errorResponse 400 ''No document file provided'')
      | Some (Some file) \<Rightarrow>
          (let fileExtension = fileExtensionOf (file_name file)
           in if fileExtension \<notin> set allowedTypes then
                Inl (errorResponse 400 ''Please upload a PDF, TXT, or MD file.'')
              else if file_size file > 10 * 1024 * 1024 then
                Inl (errorResponse 400 ''File size must be less than 10MB.'')
              else case file_text file of
                None \<Rightarrow>
                  Inl (errorResponse 400 (''Failed to parse file content. Please ensure ''
                         @ ''the file is valid and readable.''))
              | Some fileContent \<Rightarrow>
                  if fileExtension = ''.pdf'' \<and> trim fileContent = [] then
                    Inl (errorResponse 400 (''Could not extract text from PDF. Please ensure ''
                           @ ''the PDF contains readable text.''))
                  else if trim fileContent = [] then
                    Inl (errorResponse 400 ''No readable content found in the file.'')
                  else if trim fileContent = [] then
                    Inl (errorResponse 400
                           ''The file appears to be empty or contains no readable text.'')
                  else Inr (file, fileContent)))"

text \<open>Lines 326 to 340: the \<open>for\<close> loop of \<open>index.upsert\<close> calls; \<open>Inl\<close> when a call throws.\<close>

function upsertLoop ::
  "(nat \<Rightarrow> bool) \<Rightarrow> 'f embedding_vector list \<Rightarrow> nat \<Rightarrow> 'f index_state \<Rightarrow> (unit + unit) \<times> 'f index_state"
  where
  "upsertLoop throws vectors i st =
     (if i < length vectors then
        (let batch = slice vectors i (i + UPSERT_BATCH_SIZE);
             st' = st\<lparr>upsertCalls := upsertCalls st @ [batch]\<rparr>
         in if throws (i div UPSERT_BATCH_SIZE) then (Inl (), st')
            else upsertLoop throws vectors (i + UPSERT_BATCH_SIZE)
                   (st'\<lparr>stored := stored st' @ batch\<rparr>))
      else (Inr (), st))"
  by pat_completeness auto
termination
  by (relation "measure (\<lambda>(throws, vectors, i, st). length vectors - i)")
     (auto simp: UPSERT_BATCH_SIZE_def)

declare upsertLoop.simps [simp del]

text \<open>Lines 294 to 357, for a document that passed the checks.\<close>

definition ingestDocument ::
  "'f world \<Rightarrow> upload_file \<Rightarrow> string \<Rightarrow> 'f index_state \<Rightarrow> (response \<times> 'f index_state) option" where
  "ingestDocument w file fileContent st =
     (case splitTextIntoChunks fileContent 1500 200 of
        None \<Rightarrow> None
      | Some chunks \<Rightarrow>
          if length chunks = 0 then Some (noContentExtracted, st)
          else
            (case processChunksInBatches (svc w) chunks (file_name file) of
               Inl e \<Rightarrow> Some (internalServerError, st)
             | Inr (vectors, batches) \<Rightarrow>
                 if length vectors = 0 then Some (failedToProcessAnyChunks, st)
                 else if getPineconeIndexThrows w then Some (internalServerError, st)
                 else
                   (case upsertLoop (upsertThrows w) vectors 0 st of
                      (Inl pineconeError, st') \<Rightarrow> Some (failedToStore, st')
                    | (Inr finished, st') \<Rightarrow>
                        Some (okResponse (length vectors) (length chunks), st'))))"

text \<open>
  The handler: the answer and the state of the index after it; \<open>None\<close> if it never
  answers.
\<close>

definition POST :: "'f world \<Rightarrow> request \<Rightarrow> 'f index_state \<Rightarrow> (response \<times> 'f index_state) option" where
  "POST w req st =
     (case receiveDocument req of
        Inl answer \<Rightarrow> Some (answer, st)
      | Inr (file, fileContent) \<Rightarrow> ingestDocument w file fileContent st)"

subsection \<open>The cut point as the specification words it\<close>

text \<open>
  The specification's rule for the cut of a window that is not the last: search backward
  from the window's end through a region that starts at the earlier of the window's end
  minus \<open>overlap\<close> and the start of the window's last fifth, for a terminator followed
  by a space and an upper-case letter; else the nearest space of the region; else the
  window's end.
\<close>

definition isUppercaseLetter :: "char \<Rightarrow> bool" where
  "isUppercaseLetter c =
     (let n = (of_char c :: nat) in (65 \<le> n \<and> n \<le> 90) \<or> (192 \<le> n \<and> n \<le> 222 \<and> n \<noteq> 215))"

definition isTerminatorAt :: "string \<Rightarrow> nat \<Rightarrow> bool" where
  "isTerminatorAt cleanedText i =
     (charAt cleanedText i \<in> {Some CHR ''.'', Some CHR ''!'', Some CHR ''?''})"

definition capitalSentenceEndAt :: "string \<Rightarrow> nat \<Rightarrow> bool" where
  "capitalSentenceEndAt cleanedText i =
     (isTerminatorAt cleanedText i
      \<and> charAt cleanedText (i + 1) = Some CHR '' ''
      \<and> (case charAt cleanedText (i + 2) of None \<Rightarrow> False | Some c \<Rightarrow> isUppercaseLetter c))"

definition specSearchStart :: "nat \<Rightarrow> nat \<Rightarrow> nat \<Rightarrow> nat" where
  "specSearchStart startIndex maxChars overlap =
     min (startIndex + maxChars - overlap) (startIndex + maxChars - maxChars div 5)"

text \<open>The rule itself, for a region that starts at \<open>searchStart\<close>.\<close>

definition cutPointIn :: "string \<Rightarrow> nat \<Rightarrow> nat \<Rightarrow> nat" where
  "cutPointIn cleanedText searchStart endIndex =
     (let region = rev [searchStart ..< Suc endIndex]
      in case find (capitalSentenceEndAt cleanedText) region of
           Some i \<Rightarrow> i + 1
         | None \<Rightarrow>
             (case find (\<lambda>i. charAt cleanedText i = Some CHR '' '') region of
                Some i \<Rightarrow> i
              | None \<Rightarrow> endIndex))"

definition specCutPoint :: "string \<Rightarrow> nat \<Rightarrow> nat \<Rightarrow> nat \<Rightarrow> nat" where
  "specCutPoint cleanedText maxChars overlap startIndex =
     cutPointIn cleanedText (specSearchStart startIndex maxChars overlap) (startIndex + maxChars)"

subsection \<open>Sample inputs\<close>

text \<open>A service that embeds every chunk at the first call, and an index that accepts
  every \<open>upsert\<close>.\<close>

definition demoServices :: "real services" where
  "demoServices =
     \<lparr>embedContent = (\<lambda>globalIndex chunk retryCount. Responded (Some [1 / 2, 1 / 4])),
      uuidv4 = (\<lambda>globalIndex. ''8c5f0d2e''),
      toISOString = (\<lambda>globalIndex. ''2024-01-01T00:00:00.000Z'')\<rparr>"

definition demoWorld :: "real world" where
  "demoWorld =
     \<lparr>svc = demoServices, getPineconeIndexThrows = False, upsertThrows = (\<lambda>k. False)\<rparr>"

definition emptyIndex :: "real index_state" where
  "emptyIndex = \<lparr>stored = [], upsertCalls = []\<rparr>"

text \<open>A text file of ten characters.\<close>

definition shortNoteRequest :: request where
  "shortNoteRequest =
     \<lparr>apiKeyConfigured = True,
      formData = Some (Some \<lparr>file_name = ''note.txt'', file_size = 10,
                              file_text = Some ''hi, there!''\<rparr>)\<rparr>"

text \<open>A service whose every call fails with an \<open>Error\<close> that is not a rate limit, an
  index that rejects every \<open>upsert\<close>, and a service whose every call rejects with
  \<open>Object.create(null)\<close>.\<close>

definition failingServices :: "real services" where
  "failingServices =
     \<lparr>embedContent = (\<lambda>globalIndex chunk retryCount.
                        Threw (ErrorInstance (StringMessage ''socket hang up''))),
      uuidv4 = (\<lambda>globalIndex. ''8c5f0d2e''),
      toISOString = (\<lambda>globalIndex. ''2024-01-01T00:00:00.000Z'')\<rparr>"

definition failingWorld :: "real world" where
  "failingWorld =
     \<lparr>svc = failingServices, getPineconeIndexThrows = False, upsertThrows = (\<lambda>k. False)\<rparr>"

definition unreadableServices :: "real services" where
  "unreadableServices =
     \<lparr>embedContent = (\<lambda>globalIndex chunk retryCount. Threw (OtherValue None)),
      uuidv4 = (\<lambda>globalIndex. ''8c5f0d2e''),
      toISOString = (\<lambda>globalIndex. ''2024-01-01T00:00:00.000Z'')\<rparr>"

definition unreadableWorld :: "real world" where
  "unreadableWorld =
     \<lparr>svc = unreadableServices, getPineconeIndexThrows = False, upsertThrows = (\<lambda>k. False)\<rparr>"

definition rejectingWorld :: "real world" where
  "rejectingWorld =
     \<lparr>svc = demoServices, getPineconeIndexThrows = False, upsertThrows = (\<lambda>k. True)\<rparr>"

text \<open>Three texts: 1500 letters, then a sentence end, then 60 letters; a sentence end at
  index 60 of 130 characters; and a sentence end at index 16 of 28 characters.\<close>

definition overlongText :: string where
  "overlongText = replicate 1500 CHR ''a'' @ ''. A'' @ replicate 60 CHR ''b''"

definition earlyStopText :: string where
  "earlyStopText = replicate 60 CHR ''a'' @ ''. A'' @ replicate 67 CHR ''a''"

definition sentenceText :: string where
  "sentenceText = ''aaaaaaaaaaaaaaaa. Bbbbbbbbbb''"

section \<open>Properties of splitTextIntoChunks\<close>

subsection \<open>Trimming\<close>

lemma trim_ends:
  "trim s = [] \<or> (\<not> isWhitespace (hd (trim s)) \<and> \<not> isWhitespace (last (trim s)))"
proof (cases "trim s = []")
  case True
  then show ?thesis by simp
next
  case False
  define u where "u = dropWhile isWhitespace s"
  define v where "v = dropWhile isWhitespace (rev u)"
  have t: "trim s = rev v" by (simp add: trim_def u_def v_def)
  with False have v: "v \<noteq> []" by simp
  then have hv: "\<not> isWhitespace (hd v)" unfolding v_def by (rule hd_dropWhile)
  have "\<exists>ws. rev u = ws @ v" unfolding v_def
    by (metis takeWhile_dropWhile_id)
  then obtain ws where ws: "rev u = ws @ v" ..
  then have "last v = last (rev u)" using v by simp
  moreover have "u \<noteq> []" using ws v by auto
  ultimately have "last v = hd u" by (simp add: last_rev)
  moreover have "\<not> isWhitespace (hd u)"
    using \<open>u \<noteq> []\<close> unfolding u_def by (rule hd_dropWhile)
  ultimately have "\<not> isWhitespace (last v)" by simp
  then show ?thesis using t v hv by (simp add: hd_rev last_rev)
qed

lemma trim_fixed:
  assumes "s = [] \<or> (\<not> isWhitespace (hd s) \<and> \<not> isWhitespace (last s))"
  shows "trim s = s"
proof (cases s)
  case Nil
  then show ?thesis by (simp add: trim_def)
next
  case (Cons a as)
  with assms have a: "\<not> isWhitespace a" and l: "\<not> isWhitespace (last s)" by auto
  have 1: "dropWhile isWhitespace s = s" using Cons a by simp
  have "s = butlast s @ [last s]" using Cons by simp
  then have "rev s = last s # rev (butlast s)"
    by (metis rev.simps(2) rev_rev_ident rev_singleton_conv rev_append)
  then have 2: "dropWhile isWhitespace (rev s) = rev s"
    using l by (metis dropWhile.simps(2))
  show ?thesis by (simp add: trim_def 1 2)
qed

lemma trim_trim: "trim (trim s) = trim s"
  using trim_ends [of s] by (auto intro: trim_fixed)

subsection \<open>The backward scans\<close>

lemma find_scan_None:
  "find P (scanIndices e lo) = None \<longleftrightarrow> (\<forall>i. lo \<le> i \<and> i \<le> e \<longrightarrow> \<not> P i)"
  by (auto simp: scanIndices_def find_None_iff)

lemma find_rev_upt_Some:
  "find P (rev [lo ..< n]) = Some i
     \<longleftrightarrow> lo \<le> i \<and> i < n \<and> P i \<and> (\<forall>j. i < j \<and> j < n \<longrightarrow> \<not> P j)"
proof (induction n)
  case 0
  then show ?case by simp
next
  case (Suc n)
  show ?case
  proof (cases "lo \<le> n")
    case False
    then show ?thesis by auto
  next
    case True
    show ?thesis
    proof (cases "P n")
      case True
      with \<open>lo \<le> n\<close> show ?thesis
        by (auto simp: not_less_eq intro: linorder_cases [of i n] dest: less_antisym)
    next
      case False
      with \<open>lo \<le> n\<close> Suc show ?thesis
        by (auto simp: less_Suc_eq)
    qed
  qed
qed

lemma find_scan_Some:
  "find P (scanIndices e lo) = Some i
     \<longleftrightarrow> lo \<le> i \<and> i \<le> e \<and> P i \<and> (\<forall>j. i < j \<and> j \<le> e \<longrightarrow> \<not> P j)"
  unfolding scanIndices_def find_rev_upt_Some by auto

lemma searchStartOf_le: "searchStartOf s m \<le> s + m"
  by (simp add: searchStartOf_def)

lemma searchStartOf_gt: "0 < m \<Longrightarrow> s < searchStartOf s m"
proof -
  assume "0 < m"
  then have "0 < (7 * m + 9) div 10" by arith
  then show ?thesis by (simp add: searchStartOf_def max_def)
qed

lemma sentenceCut_bounds:
  "lo \<le> e \<Longrightarrow> lo \<le> sentenceCut t e lo \<and> sentenceCut t e lo \<le> e + 1"
  by (auto simp: sentenceCut_def find_scan_Some split: option.splits)

lemma wordCut_bounds:
  "lo \<le> e \<Longrightarrow> lo \<le> wordCut t e lo \<and> wordCut t e lo \<le> e"
  by (auto simp: wordCut_def find_scan_Some split: option.splits)

lemma chunkEndIndexOf_bounds:
  "searchStartOf s m \<le> chunkEndIndexOf t m s \<and> chunkEndIndexOf t m s \<le> s + m + 1"
  using sentenceCut_bounds [OF searchStartOf_le, of s m t]
    wordCut_bounds [OF searchStartOf_le, of s m t]
  by (auto simp: chunkEndIndexOf_def Let_def)

lemma nextStartIndex_bounds:
  "s < ce \<Longrightarrow> s < nextStartIndex ov s ce \<and> nextStartIndex ov s ce \<le> ce"
  by (auto simp: nextStartIndex_def Let_def max_def)

lemma cursor_advances:
  "0 < m \<Longrightarrow> s < nextStartIndex ov s (chunkEndIndexOf t m s)"
  using chunkEndIndexOf_bounds [of s m t] searchStartOf_gt [of m s]
    nextStartIndex_bounds [of s "chunkEndIndexOf t m s" ov]
  by simp

subsection \<open>The loop returns, and what it pushes\<close>

lemma pushIfSubstantial_set:
  "set (pushIfSubstantial cs (trim x)) \<subseteq> set cs \<union> {c. 50 < length c \<and> trim c = c}"
  by (auto simp: pushIfSubstantial_def trim_trim)

lemma chunkLoop_returns:
  assumes "0 < m"
  shows "\<exists>r. chunkLoop t m ov s cs = Some r
           \<and> set r \<subseteq> set cs \<union> {c. 50 < length c \<and> trim c = c}"
proof (induction "length t - s" arbitrary: s cs rule: less_induct)
  case less
  show ?case
  proof (cases "s < length t")
    case False
    then show ?thesis by (subst chunkLoop.simps) simp
  next
    case inside: True
    show ?thesis
    proof (cases "length t \<le> s + m")
      case True
      with inside show ?thesis
        using pushIfSubstantial_set [of cs "drop s t"]
        by (subst chunkLoop.simps) simp
    next
      case False
      define ce where "ce = chunkEndIndexOf t m s"
      define s' where "s' = nextStartIndex ov s ce"
      define cs' where "cs' = pushIfSubstantial cs (trim (slice t s ce))"
      have "s < s'" using cursor_advances [OF assms, of s ov t] by (simp add: s'_def ce_def)
      with inside have "length t - s' < length t - s" by simp
      from less [OF this, of cs'] obtain r where
        r: "chunkLoop t m ov s' cs' = Some r"
          "set r \<subseteq> set cs' \<union> {c. 50 < length c \<and> trim c = c}"
        by blast
      have step: "chunkLoop t m ov s cs = chunkLoop t m ov s' cs'"
        using inside False
        by (subst chunkLoop.simps) (simp add: ce_def s'_def cs'_def Let_def)
      have "set cs' \<subseteq> set cs \<union> {c. 50 < length c \<and> trim c = c}"
        unfolding cs'_def by (rule pushIfSubstantial_set)
      with r step show ?thesis by auto
    qed
  qed
qed

lemma split_single:
  "length (cleanText text) \<le> maxChars
     \<Longrightarrow> splitTextIntoChunks text maxChars overlap = Some [cleanText text]"
  by (simp add: splitTextIntoChunks_def)

lemma split_long:
  assumes "0 < maxChars" "maxChars < length (cleanText text)"
  shows "\<exists>chunks. splitTextIntoChunks text maxChars overlap = Some chunks
           \<and> (\<forall>c \<in> set chunks. 50 < length c \<and> trim c = c)"
proof -
  from chunkLoop_returns [OF assms(1), of "cleanText text" overlap 0 "[]"] obtain r where
    r: "chunkLoop (cleanText text) maxChars overlap 0 [] = Some r"
      "set r \<subseteq> {c. 50 < length c \<and> trim c = c}"
    by auto
  then show ?thesis using assms(2) by (auto simp: splitTextIntoChunks_def)
qed

lemma split_default_returns: "\<exists>chunks. splitTextIntoChunks text 1500 200 = Some chunks"
proof (cases "length (cleanText text) \<le> 1500")
  case True
  then show ?thesis by (simp add: split_single)
next
  case False
  then have "1500 < length (cleanText text)" by simp
  from split_long [OF _ this] show ?thesis by fastforce
qed

subsection \<open>Texts that fit in one chunk\<close>

lemma clean_short_note: "cleanText ''hi, there!'' = ''hi, there!''"
  by (simp add: cleanText_def replaceCR_def trim_def isWhitespace_def)

lemma receive_short_note:
  "receiveDocument shortNoteRequest =
     Inr (\<lparr>file_name = ''note.txt'', file_size = 10, file_text = Some ''hi, there!''\<rparr>,
          ''hi, there!'')"
  by (simp add: receiveDocument_def shortNoteRequest_def fileExtensionOf_def toLowerCaseChar_def
      allowedTypes_def trim_def isWhitespace_def)

lemma answers_differ:
  "internalServerError \<noteq> noContentExtracted"
  "failedToProcessAnyChunks \<noteq> noContentExtracted"
  "failedToStore \<noteq> noContentExtracted"
  "okResponse a b \<noteq> noContentExtracted"
  by (simp_all add: internalServerError_def noContentExtracted_def
      failedToProcessAnyChunks_def failedToStore_def okResponse_def errorResponse_def)

subsection \<open>No chunk of a long text is short\<close>

text \<open>
  C2, as the code has it. With \<open>maxChars > overlap\<close> the function returns; when the
  normalized text is longer than \<open>maxChars\<close>, every chunk returned is trimmed and has more
  than 50 characters; when it is not, the one chunk returned is the normalized text,
  of any length.
\<close>

theorem chunks_substantial_or_whole_text:
  assumes "overlap < maxChars"
  shows "\<exists>chunks. splitTextIntoChunks text maxChars overlap = Some chunks
           \<and> (if maxChars < length (cleanText text)
               then \<forall>c \<in> set chunks. 50 < length (trim c)
               else chunks = [cleanText text])"
proof (cases "maxChars < length (cleanText text)")
  case True
  from assms have "0 < maxChars" by simp
  from split_long [OF this True, of overlap] True show ?thesis by auto
next
  case False
  then show ?thesis by (simp add: split_single)
qed

theorem chunks_substantial_or_whole_text_witness:
  "(200 :: nat) < 1500
   \<and> (\<exists>chunks. splitTextIntoChunks ''hi, there!'' 1500 200 = Some chunks
         \<and> chunks = [''hi, there!''])"
  using chunks_substantial_or_whole_text [of 200 1500 "''hi, there!''"]
  by (simp add: clean_short_note)

text \<open>The claim C2 as it is worded fails on a text of two characters.\<close>

theorem two_letter_chunk:
  "splitTextIntoChunks ''ok'' 1500 200 = Some [''ok''] \<and> \<not> 50 < length (trim ''ok'')"
  by (simp add: splitTextIntoChunks_def cleanText_def replaceCR_def trim_def isWhitespace_def)

subsection \<open>The cursor advances\<close>

text \<open>
  C7. With \<open>maxChars > overlap\<close>, for every text: the cursor an iteration hands to the
  next one is strictly greater than the cursor it started from, and the loop, from any
  cursor, as well as the whole function, returns.
\<close>

theorem cursor_strictly_advances:
  assumes "overlap < maxChars"
  shows "(\<forall>startIndex.
            startIndex < nextStartIndex overlap startIndex
                           (chunkEndIndexOf cleanedText maxChars startIndex))
         \<and> (\<forall>startIndex chunks.
               \<exists>result. chunkLoop cleanedText maxChars overlap startIndex chunks = Some result)
         \<and> (\<exists>result. splitTextIntoChunks text maxChars overlap = Some result)"
proof -
  from assms have m: "0 < maxChars" by simp
  have "\<exists>result. splitTextIntoChunks text maxChars overlap = Some result"
    using split_single [of _ maxChars overlap] split_long [OF m, of _ overlap]
    by (cases "maxChars < length (cleanText text)") (fastforce, simp)
  then show ?thesis
    using cursor_advances [OF m] chunkLoop_returns [OF m] by blast
qed

theorem cursor_strictly_advances_witness:
  "(2 :: nat) < 5
   \<and> 0 < nextStartIndex 2 0 (chunkEndIndexOf ''abcdefghijkl'' 5 0)
   \<and> (\<exists>result. chunkLoop ''abcdefghijkl'' 5 2 0 [] = Some result)
   \<and> (\<exists>result. splitTextIntoChunks ''abcdefghijkl'' 5 2 = Some result)"
  using cursor_strictly_advances [of 2 5 "''abcdefghijkl''" "''abcdefghijkl''"]
  by simp

section \<open>Properties of generateEmbeddingWithRetry\<close>

lemma embed_rate_limited:
  assumes "\<forall>k. \<exists>err msg. limited chunk k = Threw err
             \<and> errorMessageOf err = Inr (StringMessage msg) \<and> isRateLimitMessage msg"
  shows "generateEmbeddingWithRetry limited chunk 0 =
           (Inr None,
            [ApiCall 0, Delay 1000, ApiCall 1, Delay 2000, ApiCall 2, Delay 4000, ApiCall 3])"
proof -
  from assms obtain err msg where
    m: "\<And>k. limited chunk k = Threw (err k)"
      "\<And>k. errorMessageOf (err k) = Inr (StringMessage (msg k))"
      "\<And>k. isRateLimitMessage (msg k)"
    by metis
  show ?thesis
    by (simp add: generateEmbeddingWithRetry.simps m includesRateLimit_def Let_def
        MAX_RETRIES_def BASE_RETRY_DELAY_def)
qed

lemma embed_other_error:
  assumes "broken chunk k = Threw err" "errorMessageOf err = Inr m"
    and "includesRateLimit m = Inr False"
  shows "generateEmbeddingWithRetry broken chunk k = (Inr None, [ApiCall k])"
  using assms by (subst generateEmbeddingWithRetry.simps) simp

lemma embed_no_vector:
  assumes "answering chunk k = Responded None \<or> answering chunk k = Responded (Some [])"
  shows "generateEmbeddingWithRetry answering chunk k = (Inr None, [ApiCall k])"
  using assms by (subst generateEmbeddingWithRetry.simps) auto

lemma embed_unreadable:
  assumes "api chunk k = Threw err"
    and "errorMessageOf err = Inl e \<or> (errorMessageOf err = Inr OtherMessage
           \<and> e = ''TypeError: errorMessage?.includes is not a function'')"
  shows "generateEmbeddingWithRetry api chunk k = (Inl e, [ApiCall k])"
  using assms by (subst generateEmbeddingWithRetry.simps) (auto simp: includesRateLimit_def)

text \<open>On the errors whose message the \<open>catch\<close> clause can read, a string or nothing, no
  exception leaves the function.\<close>

lemma readable_errors_absorbed:
  assumes "\<forall>k err. api chunk k = Threw err
             \<longrightarrow> (\<exists>m. errorMessageOf err = Inr m \<and> m \<noteq> OtherMessage)"
  shows "\<exists>r. fst (generateEmbeddingWithRetry api chunk retryCount) = Inr r
           \<and> (r = None \<or> (\<exists>v. r = Some v \<and> v \<noteq> []))"
  using assms
proof (induction api chunk retryCount rule: generateEmbeddingWithRetry.induct)
  case (1 api chunk retryCount)
  show ?case
  proof (cases "api chunk retryCount")
    case (Responded embedding)
    then show ?thesis
      by (subst generateEmbeddingWithRetry.simps) (simp split: option.splits)
  next
    case (Threw err)
    with "1.prems" obtain m where m: "errorMessageOf err = Inr m" "m \<noteq> OtherMessage" by blast
    then have "\<exists>limited. includesRateLimit m = Inr limited"
      by (cases m) (auto simp: includesRateLimit_def)
    then obtain limited where l: "includesRateLimit m = Inr limited" ..
    show ?thesis
    proof (cases "limited \<and> retryCount < MAX_RETRIES")
      case True
      with Threw m l "1.IH" [of err m limited] "1.prems" show ?thesis
        by (subst generateEmbeddingWithRetry.simps) (simp add: Let_def)
    next
      case False
      with Threw m l show ?thesis
        by (subst generateEmbeddingWithRetry.simps) auto
    qed
  qed
qed

lemma rate_limit_message: "isRateLimitMessage ''429 Too Many Requests''"
  by (simp add: isRateLimitMessage_def sublist_code)

lemma other_message: "\<not> isRateLimitMessage ''socket hang up''"
  by (simp add: isRateLimitMessage_def sublist_code)

text \<open>
  C3. When every call throws a rate-limit error, the run is the first call, then three
  retries, each after a wait of \<open>BASE_RETRY_DELAY * 2 ^ retryCount\<close> (1000, 2000 and 4000
  milliseconds), and the result is \<open>null\<close>. When a call throws another error, the result
  is \<open>null\<close> at once: that call is the last event, with no wait and no retry. An error
  is sorted by its message, which \<open>errorMessageOf\<close> gives: it is a rate-limit error when
  the message is a string holding \<open>429\<close> or \<open>Too Many Requests\<close>, and another error when
  \<open>includesRateLimit\<close> answers false, on every other string and on an absent message.
\<close>

theorem retry_schedule:
  "((\<forall>k. \<exists>err msg. limited chunk k = Threw err
            \<and> errorMessageOf err = Inr (StringMessage msg) \<and> isRateLimitMessage msg)
      \<longrightarrow> generateEmbeddingWithRetry limited chunk 0 =
            (Inr None,
             [ApiCall 0, Delay (BASE_RETRY_DELAY * 2 ^ 0),
              ApiCall 1, Delay (BASE_RETRY_DELAY * 2 ^ 1),
              ApiCall 2, Delay (BASE_RETRY_DELAY * 2 ^ 2),
              ApiCall 3])
          \<and> map Delay [BASE_RETRY_DELAY * 2 ^ 0, BASE_RETRY_DELAY * 2 ^ 1, BASE_RETRY_DELAY * 2 ^ 2]
              = [Delay 1000, Delay 2000, Delay 4000])
   \<and> (broken chunk retryCount = Threw err' \<and> errorMessageOf err' = Inr errorMessage
        \<and> includesRateLimit errorMessage = Inr False
      \<longrightarrow> generateEmbeddingWithRetry broken chunk retryCount = (Inr None, [ApiCall retryCount]))"
  using embed_rate_limited [of limited chunk]
    embed_other_error [of broken chunk retryCount err' errorMessage]
  by (simp add: BASE_RETRY_DELAY_def)

theorem retry_schedule_witness:
  "(\<forall>k. \<exists>err msg.
      (\<lambda>c k. Threw (ErrorInstance (StringMessage ''429 Too Many Requests'')) :: real api_outcome)
          ''chunk'' k = Threw err
      \<and> errorMessageOf err = Inr (StringMessage msg) \<and> isRateLimitMessage msg)
   \<and> generateEmbeddingWithRetry
         (\<lambda>c k. Threw (ErrorInstance (StringMessage ''429 Too Many Requests'')) :: real api_outcome)
         ''chunk'' 0 =
       (Inr None,
        [ApiCall 0, Delay 1000, ApiCall 1, Delay 2000, ApiCall 2, Delay 4000, ApiCall 3])
   \<and> errorMessageOf (OtherValue (Some ''socket hang up'')) = Inr (StringMessage ''socket hang up'')
   \<and> includesRateLimit (StringMessage ''socket hang up'') = Inr False
   \<and> generateEmbeddingWithRetry
         (\<lambda>c k. Threw (OtherValue (Some ''socket hang up'')) :: real api_outcome) ''chunk'' 0
       = (Inr None, [ApiCall 0])"
  using retry_schedule
      [of "\<lambda>c k. Threw (ErrorInstance (StringMessage ''429 Too Many Requests'')) :: real api_outcome"
        "''chunk''" "\<lambda>c k. Threw (OtherValue (Some ''socket hang up'')) :: real api_outcome" 0
        "OtherValue (Some ''socket hang up'')" "StringMessage ''socket hang up''"]
  by (simp add: rate_limit_message other_message BASE_RETRY_DELAY_def errorMessageOf_def
      includesRateLimit_def)

section \<open>Properties of processChunksInBatches\<close>

lemma zip_upt_nth: "zip [0 ..< length xs] xs = map (\<lambda>b. (b, xs ! b)) [0 ..< length xs]"
  by (rule nth_equalityI) auto

lemma promiseAll_Inr: "promiseAll (map (\<lambda>x. Inr (f x)) xs) = Inr (map f xs)"
  by (induction xs) auto

lemma promiseAll_Inl: "Inl e \<in> set ps \<Longrightarrow> \<exists>e'. promiseAll ps = Inl e'"
proof (induction ps)
  case Nil
  then show ?case by simp
next
  case (Cons p ps)
  then show ?case by (cases p) (auto split: sum.splits)
qed

lemma validResultsOf_map: "validResultsOf (map f xs) = List.map_filter f xs"
  by (simp add: validResultsOf_def List.map_filter_def filter_map comp_def)

lemma map_filter_append: "List.map_filter f (xs @ ys) = List.map_filter f xs @ List.map_filter f ys"
  by (simp add: List.map_filter_def)

lemma map_filter_shift_upt:
  "List.map_filter (\<lambda>b. f (i + b)) [0 ..< k] = List.map_filter f [i ..< i + k]"
  by (induction k) (simp_all add: List.map_filter_def)

lemma batch_multiple: "i mod BATCH_SIZE = 0 \<Longrightarrow> \<exists>q. i = 10 * q"
  by (auto simp: BATCH_SIZE_def)

lemma batch_div_same:
  assumes "i mod BATCH_SIZE = 0" "b < BATCH_SIZE"
  shows "(i + b) div BATCH_SIZE = i div BATCH_SIZE"
proof -
  from batch_multiple [OF assms(1)] obtain q where "i = 10 * q" ..
  with assms(2) show ?thesis by (simp add: BATCH_SIZE_def)
qed

lemma batch_count_le:
  assumes "i mod BATCH_SIZE = 0" "\<not> i < n"
  shows "(n + (BATCH_SIZE - 1)) div BATCH_SIZE \<le> i div BATCH_SIZE"
proof -
  from batch_multiple [OF assms(1)] obtain q where "i = 10 * q" ..
  with assms(2) show ?thesis by (simp add: BATCH_SIZE_def)
qed

lemma batch_count_gt:
  assumes "i mod BATCH_SIZE = 0" "i < n"
  shows "i div BATCH_SIZE < (n + (BATCH_SIZE - 1)) div BATCH_SIZE"
proof -
  from batch_multiple [OF assms(1)] obtain q where "i = 10 * q" ..
  with assms(2) show ?thesis by (simp add: BATCH_SIZE_def)
qed

lemma embedChunk_value:
  assumes "i mod BATCH_SIZE = 0" "b < BATCH_SIZE"
    and "fst (generateEmbeddingWithRetry (embedContent sv (i + b)) c 0) = Inr r"
  shows "embedChunk sv fileName n (i div BATCH_SIZE + 1) i (b, c) =
           Inr (map_option (makeVector sv fileName n ((i + b) div BATCH_SIZE + 1) (i + b) c)
                  (case fst (generateEmbeddingWithRetry (embedContent sv (i + b)) c 0) of
                     Inl e \<Rightarrow> None | Inr r \<Rightarrow> r))"
proof -
  note d = batch_div_same [OF assms(1,2)]
  show ?thesis
    unfolding embedChunk_def Let_def fst_conv snd_conv assms(3) d
    by (cases r) simp_all
qed

lemma embedChunk_throws:
  assumes "fst (generateEmbeddingWithRetry (embedContent sv (i + b)) c 0) = Inl e"
  shows "embedChunk sv fileName n batchNumber i (b, c) = Inl e"
  using assms by (simp add: embedChunk_def)

lemma processLoop_closed:
  fixes sv :: "'f services" and chunks :: "string list" and fileName :: string
  defines "mk \<equiv> \<lambda>g. map_option
                  (makeVector sv fileName (length chunks) (g div BATCH_SIZE + 1) g (chunks ! g))
                  (case fst (generateEmbeddingWithRetry (embedContent sv g) (chunks ! g) 0) of
                     Inl e \<Rightarrow> None | Inr r \<Rightarrow> r)"
  assumes "i mod BATCH_SIZE = 0"
    and "\<forall>g. i \<le> g \<and> g < length chunks
           \<longrightarrow> (\<exists>r. fst (generateEmbeddingWithRetry (embedContent sv g) (chunks ! g) 0) = Inr r)"
  shows "processLoop sv chunks fileName i vectors batches =
           Inr (vectors @ List.map_filter mk [i ..< length chunks],
                batches @ map (\<lambda>k. (k + 1, slice chunks (BATCH_SIZE * k) (BATCH_SIZE * k + BATCH_SIZE)))
                            [i div BATCH_SIZE ..< (length chunks + (BATCH_SIZE - 1)) div BATCH_SIZE])"
  using assms(2,3)
proof (induction "length chunks - i" arbitrary: i vectors batches rule: less_induct)
  case less
  show ?case
  proof (cases "i < length chunks")
    case False
    from batch_count_le [OF less.prems(1) this] False show ?thesis
      by (subst processLoop.simps) (simp add: List.map_filter_def)
  next
    case True
    define batch where "batch = slice chunks i (i + BATCH_SIZE)"
    define L where "L = length batch"
    have L: "L = min BATCH_SIZE (length chunks - i)" by (simp add: L_def batch_def slice_def)
    have nth: "batch ! b = chunks ! (i + b)" if "b < L" for b
      using that True by (simp add: L batch_def slice_def)
    have z: "zip [0 ..< length batch] batch = map (\<lambda>b. (b, batch ! b)) [0 ..< L]"
      unfolding L_def by (rule zip_upt_nth)
    have promises: "map (embedChunk sv fileName (length chunks) (i div BATCH_SIZE + 1) i)
             (zip [0 ..< length batch] batch) = map (\<lambda>b. Inr (mk (i + b))) [0 ..< L]"
      unfolding z map_map
    proof (rule map_cong [OF refl])
      fix b assume "b \<in> set [0 ..< L]"
      then have b: "b < L" by simp
      then have small: "b < BATCH_SIZE" by (simp add: L)
      from b have "b < length chunks - i" by (simp add: L)
      then have "i + b < length chunks" by arith
      with less.prems(2) obtain r where
        "fst (generateEmbeddingWithRetry (embedContent sv (i + b)) (chunks ! (i + b)) 0) = Inr r"
        by (metis le_add1)
      then have "fst (generateEmbeddingWithRetry (embedContent sv (i + b)) (batch ! b) 0) = Inr r"
        by (simp add: nth [OF b])
      from embedChunk_value [OF less.prems(1) small this, of fileName "length chunks"]
      show "(embedChunk sv fileName (length chunks) (i div BATCH_SIZE + 1) i \<circ> (\<lambda>b. (b, batch ! b))) b
              = Inr (mk (i + b))"
        by (simp add: mk_def nth [OF b])
    qed
    have next_mod: "(i + BATCH_SIZE) mod BATCH_SIZE = 0" using less.prems(1) by simp
    have rest: "\<forall>g. i + BATCH_SIZE \<le> g \<and> g < length chunks
           \<longrightarrow> (\<exists>r. fst (generateEmbeddingWithRetry (embedContent sv g) (chunks ! g) 0) = Inr r)"
      using less.prems(2) by simp
    have smaller: "length chunks - (i + BATCH_SIZE) < length chunks - i"
      using True by (simp add: BATCH_SIZE_def)
    have step: "processLoop sv chunks fileName i vectors batches =
        processLoop sv chunks fileName (i + BATCH_SIZE)
          (vectors @ List.map_filter mk [i ..< i + L])
          (batches @ [(i div BATCH_SIZE + 1, batch)])"
      using True promises
      by (subst processLoop.simps)
         (simp add: Let_def batch_def [symmetric] promiseAll_Inr validResultsOf_map
            map_filter_shift_upt)
    have range: "[i ..< length chunks] = [i ..< i + L] @ [i + BATCH_SIZE ..< length chunks]"
    proof (cases "i + BATCH_SIZE \<le> length chunks")
      case True
      then have "L = BATCH_SIZE" by (simp add: L)
      with True show ?thesis
        using upt_add_eq_append [of i "i + BATCH_SIZE" "length chunks - (i + BATCH_SIZE)"]
        by simp
    next
      case False
      then have "i + L = length chunks" using \<open>i < length chunks\<close> by (simp add: L)
      with False show ?thesis by simp
    qed
    note idx = batch_count_gt [OF less.prems(1) True]
    have idx2: "(i + BATCH_SIZE) div BATCH_SIZE = Suc (i div BATCH_SIZE)"
      by (simp add: BATCH_SIZE_def)
    have bat: "batch = slice chunks (BATCH_SIZE * (i div BATCH_SIZE)) (BATCH_SIZE * (i div BATCH_SIZE) + BATCH_SIZE)"
    proof -
      from less.prems(1) have "BATCH_SIZE * (i div BATCH_SIZE) = i"
        by (metis add.right_neutral mult_div_mod_eq)
      then show ?thesis by (simp add: batch_def)
    qed
    show ?thesis
      unfolding step less.hyps [OF smaller next_mod rest] idx2
      using upt_conv_Cons [OF idx]
      by (simp add: range map_filter_append bat)
  qed
qed

lemma processLoop_throws:
  assumes "i \<le> g" "g < length chunks"
    and "fst (generateEmbeddingWithRetry (embedContent sv g) (chunks ! g) 0) = Inl e"
  shows "\<exists>e'. processLoop sv chunks fileName i vectors batches = Inl e'"
  using assms(1)
proof (induction "length chunks - i" arbitrary: i vectors batches rule: less_induct)
  case less
  from less.prems assms(2) have inside: "i < length chunks" by simp
  define batch where "batch = slice chunks i (i + BATCH_SIZE)"
  define promises where "promises = map (embedChunk sv fileName (length chunks)
      (i div BATCH_SIZE + 1) i) (zip [0 ..< length batch] batch)"
  have unfold: "processLoop sv chunks fileName i vectors batches =
      (case promiseAll promises of
         Inl e \<Rightarrow> Inl e
       | Inr batchResults \<Rightarrow>
           processLoop sv chunks fileName (i + BATCH_SIZE)
             (vectors @ validResultsOf batchResults)
             (batches @ [(i div BATCH_SIZE + 1, batch)]))"
    using inside unfolding batch_def promises_def
    by (subst processLoop.simps) (simp only: Let_def if_True)
  show ?case
  proof (cases "g < i + BATCH_SIZE")
    case True
    define b where "b = g - i"
    have L: "length batch = min BATCH_SIZE (length chunks - i)"
      by (simp add: batch_def slice_def)
    from True less.prems assms(2) have "b < BATCH_SIZE" "b < length chunks - i" "i + b = g"
      unfolding b_def by arith+
    then have b: "b < length batch" "i + b = g" by (simp_all add: L)
    then have "batch ! b = chunks ! g"
      using inside by (simp add: batch_def slice_def)
    with assms(3) b have
      "embedChunk sv fileName (length chunks) (i div BATCH_SIZE + 1) i (b, batch ! b) = Inl e"
      by (simp add: embedChunk_throws)
    moreover have "(b, batch ! b) \<in> set (zip [0 ..< length batch] batch)"
      using b(1) by (simp add: zip_upt_nth)
    ultimately have "Inl e \<in> set promises"
      unfolding promises_def by (metis image_eqI set_map)
    from promiseAll_Inl [OF this] show ?thesis
      unfolding unfold by auto
  next
    case False
    then have later: "i + BATCH_SIZE \<le> g" by simp
    with assms(2) have smaller: "length chunks - (i + BATCH_SIZE) < length chunks - i"
      by (simp add: BATCH_SIZE_def)
    show ?thesis
    proof (cases "promiseAll promises")
      case (Inl e')
      then show ?thesis unfolding unfold by simp
    next
      case (Inr batchResults)
      with less.hyps [OF smaller later] show ?thesis unfolding unfold by simp
    qed
  qed
qed

lemma concat_slices:
  "concat (map (\<lambda>k. slice xs (m * k) (m * k + m)) [0 ..< nb]) = take (m * nb) xs"
proof (induction nb)
  case 0
  then show ?case by simp
next
  case (Suc nb)
  have "m * Suc nb = m * nb + m" by simp
  then have "take (m * Suc nb) xs = take (m * nb) xs @ take m (drop (m * nb) xs)"
    by (simp only: take_add)
  with Suc show ?case by (simp add: slice_def)
qed

lemma process_closed:
  assumes "\<forall>g < length chunks.
             \<exists>r. fst (generateEmbeddingWithRetry (embedContent sv g) (chunks ! g) 0) = Inr r"
  shows "processChunksInBatches sv chunks fileName =
     Inr (List.map_filter
            (\<lambda>g. map_option (makeVector sv fileName (length chunks) (g div 10 + 1) g (chunks ! g))
                   (case fst (generateEmbeddingWithRetry (embedContent sv g) (chunks ! g) 0) of
                      Inl e \<Rightarrow> None | Inr r \<Rightarrow> r))
            [0 ..< length chunks],
          map (\<lambda>k. (k + 1, slice chunks (10 * k) (10 * k + 10)))
            [0 ..< (length chunks + 9) div 10])"
proof -
  from assms have "\<forall>g. 0 \<le> g \<and> g < length chunks
      \<longrightarrow> (\<exists>r. fst (generateEmbeddingWithRetry (embedContent sv g) (chunks ! g) 0) = Inr r)"
    by simp
  from processLoop_closed [OF _ this, of fileName "[]" "[]"] show ?thesis
    unfolding processChunksInBatches_def by (simp add: BATCH_SIZE_def)
qed

lemma process_throws:
  assumes "g < length chunks"
    and "fst (generateEmbeddingWithRetry (embedContent sv g) (chunks ! g) 0) = Inl e"
  shows "\<exists>e'. processChunksInBatches sv chunks fileName = Inl e'"
  unfolding processChunksInBatches_def
  using processLoop_throws [OF _ assms, of 0] by simp

lemma process_returned:
  assumes "processChunksInBatches sv chunks fileName = Inr result"
  shows "\<forall>g < length chunks.
           \<exists>r. fst (generateEmbeddingWithRetry (embedContent sv g) (chunks ! g) 0) = Inr r"
proof (intro allI impI)
  fix g assume g: "g < length chunks"
  show "\<exists>r. fst (generateEmbeddingWithRetry (embedContent sv g) (chunks ! g) 0) = Inr r"
  proof (cases "fst (generateEmbeddingWithRetry (embedContent sv g) (chunks ! g) 0)")
    case (Inl e)
    from process_throws [OF g this, of fileName] assms show ?thesis by auto
  next
    case (Inr r)
    then show ?thesis by blast
  qed
qed

lemma set_map_filter: "set (List.map_filter f xs) = {y. \<exists>x \<in> set xs. f x = Some y}"
proof -
  have "y \<in> set (List.map_filter f xs) \<longleftrightarrow> (\<exists>x \<in> set xs. f x = Some y)" for y
    by (induction xs) (auto simp: List.map_filter_def)
  then show ?thesis by blast
qed

lemma process_drops_null:
  assumes "processChunksInBatches sv chunks fileName = Inr (vectors, batches)"
    and "fst (generateEmbeddingWithRetry (embedContent sv g) (chunks ! g) 0) = Inr None"
  shows "g \<notin> (\<lambda>v. chunk_index (vec_metadata v)) ` set vectors"
proof
  assume "g \<in> (\<lambda>v. chunk_index (vec_metadata v)) ` set vectors"
  then obtain v where v: "v \<in> set vectors" "chunk_index (vec_metadata v) = g" by auto
  define mk where "mk = (\<lambda>g. map_option
      (makeVector sv fileName (length chunks) (g div 10 + 1) g (chunks ! g))
      (case fst (generateEmbeddingWithRetry (embedContent sv g) (chunks ! g) 0) of
         Inl e \<Rightarrow> None | Inr r \<Rightarrow> r))"
  from assms(1) have "vectors = List.map_filter mk [0 ..< length chunks]"
    using process_closed [OF process_returned [OF assms(1)], of fileName]
    by (simp add: mk_def)
  with v(1) obtain g' where g': "mk g' = Some v" by (auto simp: set_map_filter)
  then have "chunk_index (vec_metadata v) = g'"
    by (auto simp: mk_def makeVector_def)
  with v(2) have "g' = g" by simp
  with g' assms(2) show False by (simp add: mk_def)
qed

lemma process_all_null:
  assumes "\<forall>g < length chunks.
             fst (generateEmbeddingWithRetry (embedContent sv g) (chunks ! g) 0) = Inr None"
  shows "\<exists>batches. processChunksInBatches sv chunks fileName = Inr ([], batches)"
proof -
  from assms have "\<forall>g < length chunks.
      \<exists>r. fst (generateEmbeddingWithRetry (embedContent sv g) (chunks ! g) 0) = Inr r"
    by simp
  from process_closed [OF this, of fileName] assms show ?thesis
    by (simp add: List.map_filter_def filter_empty_conv)
qed

section \<open>Properties of the upsert loop and of the handler\<close>

lemma upsert_multiple_ge:
  "\<not> UPSERT_BATCH_SIZE * j < n \<Longrightarrow> (n + (UPSERT_BATCH_SIZE - 1)) div UPSERT_BATCH_SIZE \<le> j"
  by (simp add: UPSERT_BATCH_SIZE_def)

lemma upsert_multiple_lt:
  "UPSERT_BATCH_SIZE * j < n \<Longrightarrow> j < (n + (UPSERT_BATCH_SIZE - 1)) div UPSERT_BATCH_SIZE"
  by (simp add: UPSERT_BATCH_SIZE_def)

lemma upsert_div: "(UPSERT_BATCH_SIZE * j) div UPSERT_BATCH_SIZE = j"
  by (simp add: UPSERT_BATCH_SIZE_def)

lemma slice_then_drop: "slice xs i (i + k) @ drop (i + k) xs = drop i xs"
  by (simp add: slice_def) (metis add.commute append_take_drop_id drop_drop)

lemma slice_then_slice: "i + k \<le> m \<Longrightarrow> slice xs i (i + k) @ slice xs (i + k) m = slice xs i m"
proof -
  assume "i + k \<le> m"
  then have "m - i = k + (m - (i + k))" by simp
  then show ?thesis
    by (simp add: slice_def take_add add.commute)
qed

lemma upsertLoop_closed:
  fixes vectors :: "'f embedding_vector list"
  defines "nb \<equiv> (length vectors + (UPSERT_BATCH_SIZE - 1)) div UPSERT_BATCH_SIZE"
  defines "batchAt \<equiv> \<lambda>k. slice vectors (UPSERT_BATCH_SIZE * k) (UPSERT_BATCH_SIZE * k + UPSERT_BATCH_SIZE)"
  shows "upsertLoop throws vectors (UPSERT_BATCH_SIZE * j) st =
           (case find throws [j ..< nb] of
              None \<Rightarrow>
                (Inr (), st\<lparr>upsertCalls := upsertCalls st @ map batchAt [j ..< nb],
                         stored := stored st @ drop (UPSERT_BATCH_SIZE * j) vectors\<rparr>)
            | Some k \<Rightarrow>
                (Inl (), st\<lparr>upsertCalls := upsertCalls st @ map batchAt [j ..< Suc k],
                            stored := stored st
                              @ slice vectors (UPSERT_BATCH_SIZE * j) (UPSERT_BATCH_SIZE * k)\<rparr>))"
proof (induction "nb - j" arbitrary: j st rule: less_induct)
  case less
  show ?case
  proof (cases "UPSERT_BATCH_SIZE * j < length vectors")
    case False
    from upsert_multiple_ge [OF this] have e: "[j ..< nb] = []" by (simp add: nb_def)
    from False show ?thesis
      by (subst upsertLoop.simps) (simp add: e)
  next
    case True
    from upsert_multiple_lt [OF this] have j: "j < nb" by (simp add: nb_def)
    then have range: "[j ..< nb] = j # [Suc j ..< nb]" by (rule upt_conv_Cons)
    show ?thesis
    proof (cases "throws j")
      case throws: True
      with True show ?thesis
        by (subst upsertLoop.simps) (simp add: range Let_def batchAt_def slice_def upsert_div)
    next
      case accepted: False
      have next_i: "UPSERT_BATCH_SIZE * j + UPSERT_BATCH_SIZE = UPSERT_BATCH_SIZE * Suc j" by simp
      have smaller: "nb - Suc j < nb - j" using j by simp
      have step: "upsertLoop throws vectors (UPSERT_BATCH_SIZE * j) st =
          upsertLoop throws vectors (UPSERT_BATCH_SIZE * Suc j)
            (st\<lparr>upsertCalls := upsertCalls st @ [batchAt j], stored := stored st @ batchAt j\<rparr>)"
        using True accepted
        by (subst upsertLoop.simps) (simp add: Let_def batchAt_def upsert_div add.commute)
      show ?thesis
      proof (cases "find throws [Suc j ..< nb]")
        case None
        with accepted show ?thesis
          unfolding step less [OF smaller]
          using slice_then_drop [of vectors "UPSERT_BATCH_SIZE * j" UPSERT_BATCH_SIZE]
          by (simp add: range batchAt_def add.commute)
      next
        case (Some k)
        then have "Suc j \<le> k" by (auto simp: find_Some_iff)
        then have "UPSERT_BATCH_SIZE * j + UPSERT_BATCH_SIZE \<le> UPSERT_BATCH_SIZE * k"
          by (simp add: UPSERT_BATCH_SIZE_def)
        moreover have "[j ..< k] = j # [Suc j ..< k]"
          using \<open>Suc j \<le> k\<close> by (simp add: upt_conv_Cons)
        ultimately show ?thesis
          unfolding step less [OF smaller]
          using slice_then_slice [of "UPSERT_BATCH_SIZE * j" UPSERT_BATCH_SIZE
              "UPSERT_BATCH_SIZE * k" vectors] Some accepted \<open>Suc j \<le> k\<close>
          by (simp add: range batchAt_def add.commute)
      qed
    qed
  qed
qed

lemma upsert_closed:
  "upsertLoop throws vectors 0 st =
     (case find throws [0 ..< (length vectors + 99) div 100] of
        None \<Rightarrow>
          (Inr (), st\<lparr>upsertCalls := upsertCalls st
                      @ map (\<lambda>k. slice vectors (100 * k) (100 * k + 100))
                          [0 ..< (length vectors + 99) div 100],
                   stored := stored st @ vectors\<rparr>)
      | Some k \<Rightarrow>
          (Inl (), st\<lparr>upsertCalls := upsertCalls st
                         @ map (\<lambda>k. slice vectors (100 * k) (100 * k + 100)) [0 ..< Suc k],
                      stored := stored st @ take (100 * k) vectors\<rparr>))"
  using upsertLoop_closed [of throws vectors 0 st]
  by (simp add: UPSERT_BATCH_SIZE_def slice_def split: option.split)

lemma ingest_reaches_upsert:
  assumes "splitTextIntoChunks fileContent 1500 200 = Some chunks" "chunks \<noteq> []"
    and "processChunksInBatches (svc w) chunks (file_name f) = Inr (vectors, batches)"
    and "vectors \<noteq> []" "\<not> getPineconeIndexThrows w"
  shows "ingestDocument w f fileContent st =
           (case upsertLoop (upsertThrows w) vectors 0 st of
              (Inl pineconeError, st') \<Rightarrow> Some (failedToStore, st')
            | (Inr finished, st') \<Rightarrow> Some (okResponse (length vectors) (length chunks), st'))"
  using assms by (simp add: ingestDocument_def)

lemma ingest_store_failure:
  assumes "splitTextIntoChunks fileContent 1500 200 = Some chunks" "chunks \<noteq> []"
    and "processChunksInBatches (svc w) chunks (file_name f) = Inr (vectors, batches)"
    and "vectors \<noteq> []" "\<not> getPineconeIndexThrows w"
    and "find (upsertThrows w) [0 ..< (length vectors + 99) div 100] = Some k"
  shows "ingestDocument w f fileContent st =
           Some (failedToStore,
                 st\<lparr>upsertCalls := upsertCalls st
                        @ map (\<lambda>k. slice vectors (100 * k) (100 * k + 100)) [0 ..< Suc k],
                     stored := stored st @ take (100 * k) vectors\<rparr>)"
  unfolding ingest_reaches_upsert [OF assms(1-5)] upsert_closed assms(6) by simp

lemma ingest_stored:
  assumes "splitTextIntoChunks fileContent 1500 200 = Some chunks" "chunks \<noteq> []"
    and "processChunksInBatches (svc w) chunks (file_name f) = Inr (vectors, batches)"
    and "vectors \<noteq> []" "\<not> getPineconeIndexThrows w"
    and "find (upsertThrows w) [0 ..< (length vectors + 99) div 100] = None"
  shows "ingestDocument w f fileContent st =
           Some (okResponse (length vectors) (length chunks),
                 st\<lparr>upsertCalls := upsertCalls st
                        @ map (\<lambda>k. slice vectors (100 * k) (100 * k + 100))
                            [0 ..< (length vectors + 99) div 100],
                     stored := stored st @ vectors\<rparr>)"
  unfolding ingest_reaches_upsert [OF assms(1-5)] upsert_closed assms(6) by simp

lemma ingest_all_null:
  assumes "splitTextIntoChunks fileContent 1500 200 = Some chunks" "chunks \<noteq> []"
    and "\<forall>g < length chunks.
           fst (generateEmbeddingWithRetry (embedContent (svc w) g) (chunks ! g) 0) = Inr None"
  shows "ingestDocument w f fileContent st = Some (failedToProcessAnyChunks, st)"
proof -
  from process_all_null [OF assms(3), of "file_name f"] obtain batches where
    "processChunksInBatches (svc w) chunks (file_name f) = Inr ([], batches)" ..
  with assms(1,2) show ?thesis by (simp add: ingestDocument_def)
qed

lemma split_short_note: "splitTextIntoChunks ''hi, there!'' 1500 200 = Some [''hi, there!'']"
  using split_single [of "''hi, there!''" 1500 200] by (simp add: clean_short_note)

lemma demo_embedding:
  "generateEmbeddingWithRetry (embedContent demoServices g) c 0 = (Inr (Some [1 / 2, 1 / 4]), [ApiCall 0])"
  by (simp add: generateEmbeddingWithRetry.simps demoServices_def)

lemma failing_embedding:
  "generateEmbeddingWithRetry (embedContent failingServices g) c 0 = (Inr None, [ApiCall 0])"
  by (simp add: generateEmbeddingWithRetry.simps failingServices_def other_message
      errorMessageOf_def includesRateLimit_def)

lemma unreadable_embedding:
  "generateEmbeddingWithRetry (embedContent unreadableServices g) c 0 =
     (Inl ''TypeError: Cannot convert object to primitive value'', [ApiCall 0])"
  by (simp add: generateEmbeddingWithRetry.simps unreadableServices_def errorMessageOf_def)

lemma demo_vectors:
  "processChunksInBatches demoServices [''hi, there!''] ''note.txt'' =
     Inr ([makeVector demoServices ''note.txt'' 1 1 0 ''hi, there!'' [1 / 2, 1 / 4]],
          [(1, [''hi, there!''])])"
proof -
  have "\<forall>g < length [''hi, there!''].
      \<exists>r. fst (generateEmbeddingWithRetry (embedContent demoServices g)
                 ([''hi, there!''] ! g) 0) = Inr r"
    by (simp add: demo_embedding)
  from process_closed [OF this, of "''note.txt''"] show ?thesis
    by (simp add: demo_embedding List.map_filter_def slice_def)
qed

lemma post_short_note:
  "POST demoWorld shortNoteRequest emptyIndex =
     Some (okResponse 1 1,
           \<lparr>stored = [makeVector demoServices ''note.txt'' 1 1 0 ''hi, there!'' [1 / 2, 1 / 4]],
            upsertCalls = [[makeVector demoServices ''note.txt'' 1 1 0 ''hi, there!'' [1 / 2, 1 / 4]]]\<rparr>)"
  using ingest_stored [of "''hi, there!''" "[''hi, there!'']" demoWorld
      "\<lparr>file_name = ''note.txt'', file_size = 10, file_text = Some ''hi, there!''\<rparr>"
      "[makeVector demoServices ''note.txt'' 1 1 0 ''hi, there!'' [1 / 2, 1 / 4]]"
      "[(1, [''hi, there!''])]" emptyIndex]
  by (simp add: POST_def receive_short_note split_short_note demo_vectors demoWorld_def
      emptyIndex_def slice_def)

lemma failing_vectors:
  "processChunksInBatches failingServices [''hi, there!''] ''note.txt'' =
     Inr ([], [(1, [''hi, there!''])])"
proof -
  have "\<forall>g < length [''hi, there!''].
      \<exists>r. fst (generateEmbeddingWithRetry (embedContent failingServices g)
                 ([''hi, there!''] ! g) 0) = Inr r"
    by (simp add: failing_embedding)
  from process_closed [OF this, of "''note.txt''"] show ?thesis
    by (simp add: failing_embedding List.map_filter_def slice_def)
qed

lemma unreadable_vectors:
  "processChunksInBatches unreadableServices [''hi, there!''] ''note.txt'' =
     Inl ''TypeError: Cannot convert object to primitive value''"
  by (simp add: processChunksInBatches_def processLoop.simps [of _ _ _ 0] BATCH_SIZE_def
      slice_def embedChunk_def unreadable_embedding)

lemma process_single:
  assumes "fst (generateEmbeddingWithRetry (embedContent sv 0) c 0) = Inr r"
  shows "processChunksInBatches sv [c] fileName =
           Inr (case r of None \<Rightarrow> [] | Some embedding \<Rightarrow> [makeVector sv fileName 1 1 0 c embedding],
                [(1, [c])])"
proof -
  from assms have "\<forall>g < length [c].
      \<exists>r. fst (generateEmbeddingWithRetry (embedContent sv g) ([c] ! g) 0) = Inr r"
    by simp
  from process_closed [OF this, of fileName] assms show ?thesis
    by (cases r) (simp_all add: List.map_filter_def slice_def)
qed

lemma upsert_single:
  "upsertLoop throws [v] 0 st =
     (if throws 0 then (Inl (), st\<lparr>upsertCalls := upsertCalls st @ [[v]]\<rparr>)
      else (Inr (), st\<lparr>upsertCalls := upsertCalls st @ [[v]], stored := stored st @ [v]\<rparr>))"
  by (simp add: upsert_closed slice_def)

lemma ingest_single_chunk:
  assumes "length (cleanText fileContent) \<le> 1500"
  shows "ingestDocument w f fileContent st =
           (case fst (generateEmbeddingWithRetry (embedContent (svc w) 0)
                        (cleanText fileContent) 0) of
              Inl e \<Rightarrow> Some (internalServerError, st)
            | Inr None \<Rightarrow> Some (failedToProcessAnyChunks, st)
            | Inr (Some embedding) \<Rightarrow>
                if getPineconeIndexThrows w then Some (internalServerError, st)
                else if upsertThrows w 0 then
                  Some (failedToStore,
                        st\<lparr>upsertCalls := upsertCalls st
                             @ [[makeVector (svc w) (file_name f) 1 1 0 (cleanText fileContent)
                                   embedding]]\<rparr>)
                else
                  Some (okResponse 1 1,
                        st\<lparr>upsertCalls := upsertCalls st
                             @ [[makeVector (svc w) (file_name f) 1 1 0 (cleanText fileContent)
                                   embedding]],
                           stored := stored st
                             @ [makeVector (svc w) (file_name f) 1 1 0 (cleanText fileContent)
                                  embedding]\<rparr>))"
proof -
  define c where "c = cleanText fileContent"
  have split: "splitTextIntoChunks fileContent 1500 200 = Some [c]"
    using assms by (simp add: split_single c_def)
  show ?thesis
  proof (cases "fst (generateEmbeddingWithRetry (embedContent (svc w) 0) c 0)")
    case (Inl e)
    then have "fst (generateEmbeddingWithRetry (embedContent (svc w) 0) ([c] ! 0) 0) = Inl e"
      by simp
    from process_throws [OF _ this, of "file_name f"] obtain e' where
      "processChunksInBatches (svc w) [c] (file_name f) = Inl e'" by auto
    with Inl split show ?thesis
      by (simp add: ingestDocument_def c_def [symmetric])
  next
    case (Inr r)
    note single = process_single [OF Inr, of "file_name f"]
    show ?thesis
    proof (cases r)
      case None
      with Inr split single show ?thesis
        by (simp add: ingestDocument_def c_def [symmetric])
    next
      case (Some embedding)
      with Inr split single show ?thesis
        by (simp add: ingestDocument_def c_def [symmetric] upsert_single)
    qed
  qed
qed

section \<open>The claims about the handler and the batches\<close>

text \<open>
  C1, as the code has it. A text whose normalized form has at most \<open>maxChars\<close>
  characters gives exactly one chunk, the normalized text, whatever its length: the
  threshold of 50 characters is not applied on this path. The handler does not answer
  such a document with the zero-chunks failure. It embeds the one chunk, as chunk 0 of
  1 in batch 1, and its answer is decided by that attempt: status 500 for no chunk
  processed when the embedding is \<open>null\<close>; else one \<open>upsert\<close> of the one vector, and
  status 200 with 1 chunk of 1 when the index takes it, status 500 when it does not;
  the general status 500 when the attempt or \<open>getPineconeIndex\<close> throws.
\<close>

theorem short_text_is_one_chunk:
  "(length (cleanText text) \<le> maxChars
      \<longrightarrow> splitTextIntoChunks text maxChars overlap = Some [cleanText text])
   \<and> (receiveDocument req = Inr (f, fileContent) \<and> length (cleanText fileContent) \<le> 1500
      \<longrightarrow> POST w req st =
            (case fst (generateEmbeddingWithRetry (embedContent (svc w) 0)
                         (cleanText fileContent) 0) of
               Inl e \<Rightarrow> Some (internalServerError, st)
             | Inr None \<Rightarrow> Some (failedToProcessAnyChunks, st)
             | Inr (Some embedding) \<Rightarrow>
                 if getPineconeIndexThrows w then Some (internalServerError, st)
                 else if upsertThrows w 0 then
                   Some (failedToStore,
                         st\<lparr>upsertCalls := upsertCalls st
                              @ [[makeVector (svc w) (file_name f) 1 1 0 (cleanText fileContent)
                                    embedding]]\<rparr>)
                 else
                   Some (okResponse 1 1,
                         st\<lparr>upsertCalls := upsertCalls st
                              @ [[makeVector (svc w) (file_name f) 1 1 0 (cleanText fileContent)
                                    embedding]],
                            stored := stored st
                              @ [makeVector (svc w) (file_name f) 1 1 0 (cleanText fileContent)
                                   embedding]\<rparr>)))"
  using ingest_single_chunk [of fileContent w f st]
  by (auto simp: split_single POST_def)

theorem short_text_is_one_chunk_witness:
  "length (cleanText ''hi, there!'') \<le> 1500
   \<and> splitTextIntoChunks ''hi, there!'' 1500 200 = Some [cleanText ''hi, there!'']
   \<and> receiveDocument shortNoteRequest =
       Inr (\<lparr>file_name = ''note.txt'', file_size = 10, file_text = Some ''hi, there!''\<rparr>,
            ''hi, there!'')
   \<and> POST demoWorld shortNoteRequest emptyIndex =
       Some (okResponse 1 1,
             \<lparr>stored = [makeVector demoServices ''note.txt'' 1 1 0 ''hi, there!'' [1 / 2, 1 / 4]],
              upsertCalls = [[makeVector demoServices ''note.txt'' 1 1 0 ''hi, there!''
                                [1 / 2, 1 / 4]]]\<rparr>)"
  using short_text_is_one_chunk [of "''hi, there!''" 1500 200 shortNoteRequest
      "\<lparr>file_name = ''note.txt'', file_size = 10, file_text = Some ''hi, there!''\<rparr>"
      "''hi, there!''" demoWorld emptyIndex]
  by (simp add: clean_short_note receive_short_note demo_embedding demoWorld_def emptyIndex_def)

text \<open>
  The claim C1 as it is worded fails on a text file of ten characters: the text is one
  chunk, not none, and with a service that embeds it and an index that stores it the
  handler answers with success.
\<close>

theorem short_note_not_rejected:
  "length (cleanText ''hi, there!'') = 10
   \<and> splitTextIntoChunks ''hi, there!'' 1500 200 = Some [''hi, there!'']
   \<and> map_option fst (POST demoWorld shortNoteRequest emptyIndex) = Some (okResponse 1 1)"
  by (simp add: clean_short_note split_short_note post_short_note)

text \<open>
  C8. When the function returns, the vectors returned are those of the chunks whose
  embedding is not \<open>null\<close>, in the order of the chunks, and the vector made from the chunk
  at global index \<open>g\<close> has \<open>chunk_index = g\<close>, \<open>total_chunks\<close> the number of chunks and
  \<open>batch_number = g div 10 + 1\<close>; the batches the loop goes through are the slices
  \<open>[10 k, 10 k + 10)\<close> of the chunk list, numbered from 1, and put end to end they are
  the chunk list. It returns whenever no embedding attempt lets an exception out.
\<close>

theorem batches_and_metadata:
  "((\<forall>g < length chunks.
       \<exists>r. fst (generateEmbeddingWithRetry (embedContent sv g) (chunks ! g) 0) = Inr r)
      \<longrightarrow> processChunksInBatches sv chunks fileName =
            Inr (List.map_filter
                   (\<lambda>g. map_option
                          (makeVector sv fileName (length chunks) (g div 10 + 1) g (chunks ! g))
                          (case fst (generateEmbeddingWithRetry (embedContent sv g)
                                       (chunks ! g) 0) of
                             Inl e \<Rightarrow> None | Inr r \<Rightarrow> r))
                   [0 ..< length chunks],
                 map (\<lambda>k. (k + 1, slice chunks (10 * k) (10 * k + 10)))
                   [0 ..< (length chunks + 9) div 10]))
   \<and> (processChunksInBatches sv chunks fileName = Inr (vectors, batches)
      \<longrightarrow> vectors =
            List.map_filter
              (\<lambda>g. map_option
                     (makeVector sv fileName (length chunks) (g div 10 + 1) g (chunks ! g))
                     (case fst (generateEmbeddingWithRetry (embedContent sv g)
                                  (chunks ! g) 0) of
                        Inl e \<Rightarrow> None | Inr r \<Rightarrow> r))
              [0 ..< length chunks]
          \<and> batches =
              map (\<lambda>k. (k + 1, slice chunks (10 * k) (10 * k + 10)))
                [0 ..< (length chunks + 9) div 10])
   \<and> concat (map (\<lambda>k. slice chunks (10 * k) (10 * k + 10)) [0 ..< (length chunks + 9) div 10])
       = chunks
   \<and> chunk_index (vec_metadata
         (makeVector sv fileName (length chunks) (g div 10 + 1) g (chunks ! g) embedding)) = g
   \<and> total_chunks (vec_metadata
         (makeVector sv fileName (length chunks) (g div 10 + 1) g (chunks ! g) embedding))
       = length chunks
   \<and> batch_number (vec_metadata
         (makeVector sv fileName (length chunks) (g div 10 + 1) g (chunks ! g) embedding))
       = g div 10 + 1"
proof -
  have returned: "processChunksInBatches sv chunks fileName = Inr (vectors, batches)
      \<Longrightarrow> \<forall>g < length chunks.
            \<exists>r. fst (generateEmbeddingWithRetry (embedContent sv g) (chunks ! g) 0) = Inr r"
    by (rule process_returned)
  show ?thesis
    using process_closed [of chunks sv fileName] returned
    by (auto simp: concat_slices makeVector_def)
qed

theorem batches_and_metadata_witness:
  "processChunksInBatches demoServices [''hi, there!''] ''note.txt'' =
     Inr ([makeVector demoServices ''note.txt'' 1 1 0 ''hi, there!'' [1 / 2, 1 / 4]],
          [(1, [''hi, there!''])])"
  using batches_and_metadata [of "[''hi, there!'']" demoServices "''note.txt''"
      "[makeVector demoServices ''note.txt'' 1 1 0 ''hi, there!'' [1 / 2, 1 / 4]]"
      "[(1, [''hi, there!''])]"]
  by (simp add: demo_embedding List.map_filter_def slice_def)

text \<open>
  C4. A chunk whose embedding came back \<open>null\<close> has no vector in the result (no vector
  carries its index); when every embedding is \<open>null\<close> the result is the empty list, and
  the handler then answers with status 500 and the message that no chunk could be
  processed, which is not the answer, of status 400, it gives for zero chunks.
\<close>

theorem null_embeddings_dropped:
  "(processChunksInBatches sv chunks fileName = Inr (vectors, batches)
      \<and> fst (generateEmbeddingWithRetry (embedContent sv g) (chunks ! g) 0) = Inr None
      \<longrightarrow> g \<notin> (\<lambda>v. chunk_index (vec_metadata v)) ` set vectors)
   \<and> ((\<forall>g < length chunks.
          fst (generateEmbeddingWithRetry (embedContent sv g) (chunks ! g) 0) = Inr None)
      \<longrightarrow> (\<exists>batches'. processChunksInBatches sv chunks fileName = Inr ([], batches')))
   \<and> (receiveDocument req = Inr (f, fileContent)
      \<and> splitTextIntoChunks fileContent 1500 200 = Some chunks' \<and> chunks' \<noteq> []
      \<and> (\<forall>g < length chunks'.
            fst (generateEmbeddingWithRetry (embedContent (svc w) g) (chunks' ! g) 0) = Inr None)
      \<longrightarrow> POST w req st = Some (failedToProcessAnyChunks, st))
   \<and> status failedToProcessAnyChunks = 500
   \<and> status noContentExtracted = 400
   \<and> failedToProcessAnyChunks \<noteq> noContentExtracted"
  using process_drops_null [of sv chunks fileName vectors batches g]
    process_all_null [of chunks sv fileName]
    ingest_all_null [of fileContent chunks' w f st]
  by (auto simp: POST_def failedToProcessAnyChunks_def noContentExtracted_def errorResponse_def)

theorem null_embeddings_dropped_witness:
  "processChunksInBatches failingServices [''hi, there!''] ''note.txt''
     = Inr ([], [(1, [''hi, there!''])])
   \<and> fst (generateEmbeddingWithRetry (embedContent failingServices 0) ([''hi, there!''] ! 0) 0)
       = Inr None
   \<and> 0 \<notin> (\<lambda>v. chunk_index (vec_metadata v)) ` set ([] :: real embedding_vector list)
   \<and> receiveDocument shortNoteRequest =
       Inr (\<lparr>file_name = ''note.txt'', file_size = 10, file_text = Some ''hi, there!''\<rparr>,
            ''hi, there!'')
   \<and> splitTextIntoChunks ''hi, there!'' 1500 200 = Some [''hi, there!'']
   \<and> POST failingWorld shortNoteRequest emptyIndex = Some (failedToProcessAnyChunks, emptyIndex)"
  using null_embeddings_dropped [of failingServices "[''hi, there!'']" "''note.txt''" "[]"
      "[(1, [''hi, there!''])]" 0 shortNoteRequest
      "\<lparr>file_name = ''note.txt'', file_size = 10, file_text = Some ''hi, there!''\<rparr>"
      "''hi, there!''" "[''hi, there!'']" failingWorld emptyIndex]
  by (simp add: failing_embedding failing_vectors receive_short_note split_short_note
      failingWorld_def)

text \<open>
  C5. The vectors are sent in the slices \<open>[100 k, 100 k + 100)\<close>, in order, one \<open>upsert\<close>
  call each. When call \<open>k\<close> is the first to throw, the calls made are those of the
  slices \<open>0 .. k\<close> and no other, the index holds the vectors of the slices before \<open>k\<close>
  (nothing is taken back), and the handler answers with status 500 and the message
  that the document could not be stored. When no call throws, all vectors are stored.
\<close>

theorem upsert_stops_at_failure:
  "upsertLoop throws vectors 0 st =
     (case find throws [0 ..< (length vectors + 99) div 100] of
        None \<Rightarrow>
          (Inr (), st\<lparr>upsertCalls := upsertCalls st
                        @ map (\<lambda>k. slice vectors (100 * k) (100 * k + 100))
                            [0 ..< (length vectors + 99) div 100],
                      stored := stored st @ vectors\<rparr>)
      | Some k \<Rightarrow>
          (Inl (), st\<lparr>upsertCalls := upsertCalls st
                         @ map (\<lambda>k. slice vectors (100 * k) (100 * k + 100)) [0 ..< Suc k],
                      stored := stored st @ take (100 * k) vectors\<rparr>))
   \<and> concat (map (\<lambda>k. slice vectors (100 * k) (100 * k + 100))
         [0 ..< (length vectors + 99) div 100]) = vectors
   \<and> (receiveDocument req = Inr (f, fileContent)
      \<and> splitTextIntoChunks fileContent 1500 200 = Some chunks \<and> chunks \<noteq> []
      \<and> processChunksInBatches (svc w) chunks (file_name f) = Inr (embedded, batches)
      \<and> embedded \<noteq> [] \<and> \<not> getPineconeIndexThrows w
      \<and> find (upsertThrows w) [0 ..< (length embedded + 99) div 100] = Some k
      \<longrightarrow> POST w req st' =
            Some (failedToStore,
                  st'\<lparr>upsertCalls := upsertCalls st'
                          @ map (\<lambda>k. slice embedded (100 * k) (100 * k + 100)) [0 ..< Suc k],
                       stored := stored st' @ take (100 * k) embedded\<rparr>))
   \<and> status failedToStore = 500"
  using ingest_store_failure [of fileContent chunks w f embedded batches k st']
  by (auto simp: upsert_closed concat_slices POST_def failedToStore_def errorResponse_def)

theorem upsert_stops_at_failure_witness:
  "receiveDocument shortNoteRequest =
       Inr (\<lparr>file_name = ''note.txt'', file_size = 10, file_text = Some ''hi, there!''\<rparr>,
            ''hi, there!'')
   \<and> splitTextIntoChunks ''hi, there!'' 1500 200 = Some [''hi, there!'']
   \<and> processChunksInBatches (svc rejectingWorld) [''hi, there!''] ''note.txt'' =
       Inr ([makeVector demoServices ''note.txt'' 1 1 0 ''hi, there!'' [1 / 2, 1 / 4]],
            [(1, [''hi, there!''])])
   \<and> \<not> getPineconeIndexThrows rejectingWorld
   \<and> find (upsertThrows rejectingWorld) [0 ..< (1 + 99) div 100] = Some 0
   \<and> POST rejectingWorld shortNoteRequest emptyIndex =
       Some (failedToStore,
             \<lparr>stored = [],
              upsertCalls = [[makeVector demoServices ''note.txt'' 1 1 0 ''hi, there!''
                                [1 / 2, 1 / 4]]]\<rparr>)"
  using upsert_stops_at_failure [of "upsertThrows rejectingWorld"
      "[makeVector demoServices ''note.txt'' 1 1 0 ''hi, there!'' [1 / 2, 1 / 4]]" emptyIndex
      shortNoteRequest
      "\<lparr>file_name = ''note.txt'', file_size = 10, file_text = Some ''hi, there!''\<rparr>"
      "''hi, there!''" "[''hi, there!'']" rejectingWorld
      "[makeVector demoServices ''note.txt'' 1 1 0 ''hi, there!'' [1 / 2, 1 / 4]]"
      "[(1, [''hi, there!''])]" 0 emptyIndex]
  by (simp add: receive_short_note split_short_note demo_vectors rejectingWorld_def
      emptyIndex_def slice_def)

text \<open>
  C9 does not hold of the code. The \<open>catch\<close> clause reads the message of what was thrown
  under no \<open>try\<close> of its own: when the service rejects with a value that \<open>String\<close> cannot
  convert, or with an \<open>Error\<close> whose message is neither a string nor absent, line 125 or
  line 127 throws, the exception leaves the function, \<open>Promise.all\<close> rejects, and the
  handler gives up the whole document with its general status 500.
\<close>

theorem unreadable_error_propagates:
  "generateEmbeddingWithRetry (embedContent unreadableServices 0) ''hi, there!'' 0 =
     (Inl ''TypeError: Cannot convert object to primitive value'', [ApiCall 0])
   \<and> generateEmbeddingWithRetry
         (\<lambda>chunk retryCount. Threw (ErrorInstance OtherMessage) :: real api_outcome)
         ''hi, there!'' 0 =
       (Inl ''TypeError: errorMessage?.includes is not a function'', [ApiCall 0])
   \<and> processChunksInBatches unreadableServices [''hi, there!''] ''note.txt'' =
       Inl ''TypeError: Cannot convert object to primitive value''
   \<and> POST unreadableWorld shortNoteRequest emptyIndex = Some (internalServerError, emptyIndex)"
proof -
  have "generateEmbeddingWithRetry
          (\<lambda>chunk retryCount. Threw (ErrorInstance OtherMessage) :: real api_outcome)
          ''hi, there!'' 0 =
        (Inl ''TypeError: errorMessage?.includes is not a function'', [ApiCall 0])"
    by (simp add: generateEmbeddingWithRetry.simps errorMessageOf_def includesRateLimit_def)
  moreover have "POST unreadableWorld shortNoteRequest emptyIndex =
      Some (internalServerError, emptyIndex)"
    by (simp add: unreadable_vectors POST_def receive_short_note ingestDocument_def
        split_short_note unreadableWorld_def)
  ultimately show ?thesis
    by (simp only: unreadable_embedding unreadable_vectors simp_thms)
qed

section \<open>The cut point of a window\<close>

lemma uppercase_unchanged: "isUppercaseLetter c \<Longrightarrow> unchangedByToUpperCase c"
  by (auto simp: isUppercaseLetter_def unchangedByToUpperCase_def Let_def)

lemma capital_is_sentence_end: "capitalSentenceEndAt t i \<Longrightarrow> sentenceEndAt t i"
  by (auto simp: capitalSentenceEndAt_def sentenceEndAt_def isTerminatorAt_def
      uppercase_unchanged split: option.splits)

lemma scan_first: "lo \<le> e \<Longrightarrow> scanIndices e lo = e # rev [lo ..< e]"
  by (simp add: scanIndices_def)

lemma cutPointIn_scan:
  "cutPointIn t lo e =
     (case find (capitalSentenceEndAt t) (scanIndices e lo) of
        Some i \<Rightarrow> i + 1
      | None \<Rightarrow>
          (case find (\<lambda>i. charAt t i = Some CHR '' '') (scanIndices e lo) of
             Some i \<Rightarrow> i
           | None \<Rightarrow> e))"
  by (simp only: cutPointIn_def scanIndices_def Let_def)

lemma cut_in_region:
  assumes le: "lo \<le> e"
    and letters: "\<forall>i \<in> set (scanIndices e lo).
                    sentenceEndAt t i \<longrightarrow> capitalSentenceEndAt t i \<and> i < e"
  shows "(if sentenceCut t e lo = e then wordCut t e lo else sentenceCut t e lo)
           = cutPointIn t lo e"
proof -
  have same: "find (sentenceEndAt t) (scanIndices e lo)
                = find (capitalSentenceEndAt t) (scanIndices e lo)"
    using letters by (intro find_cong refl) (auto dest: capital_is_sentence_end)
  show ?thesis
  proof (cases "find (capitalSentenceEndAt t) (scanIndices e lo)")
    case None
    then show ?thesis
      by (simp add: cutPointIn_scan sentenceCut_def wordCut_def same)
  next
    case (Some i)
    then have i: "i \<in> set (scanIndices e lo)" "capitalSentenceEndAt t i"
      by (auto simp: find_Some_iff)
    with letters have "i < e" by (auto dest: capital_is_sentence_end)
    have cut: "sentenceCut t e lo = i + 1" by (simp add: sentenceCut_def same Some)
    show ?thesis
    proof (cases "i + 1 = e")
      case True
      with i(2) have "charAt t e = Some CHR '' ''"
        by (auto simp: capitalSentenceEndAt_def)
      then have "wordCut t e lo = e"
        by (simp add: wordCut_def scan_first [OF le])
      with True cut Some show ?thesis by (simp add: cutPointIn_scan)
    next
      case False
      with cut Some show ?thesis by (simp add: cutPointIn_scan)
    qed
  qed
qed

text \<open>
  C6, as the code has it. For a window that is not the last, the cut point is found by
  the specification's rule applied to the region that starts at the later of the
  window's end minus 200 and the cursor plus 70 percent of \<open>maxChars\<close> (rounded up), and
  ends at the index \<open>startIndex + maxChars\<close>: just after the last terminator of the region
  that is followed by a space and an upper-case letter, else at the last space of the
  region, else at \<open>startIndex + maxChars\<close>. This is stated for the texts in which every
  position of the region that passes the code's test for a sentence end is inside the
  window and is followed by a space and an upper-case letter; it says nothing of the
  other texts.
\<close>

theorem cut_point_rule:
  assumes "\<forall>i \<in> set (scanIndices (startIndex + maxChars) (searchStartOf startIndex maxChars)).
             sentenceEndAt cleanedText i
               \<longrightarrow> capitalSentenceEndAt cleanedText i \<and> i < startIndex + maxChars"
  shows "chunkEndIndexOf cleanedText maxChars startIndex =
           cutPointIn cleanedText
             (max (startIndex + maxChars - 200) (startIndex + (7 * maxChars + 9) div 10))
             (startIndex + maxChars)"
  using cut_in_region [OF searchStartOf_le assms]
  by (simp only: chunkEndIndexOf_def Let_def searchStartOf_def)

theorem cut_point_rule_witness:
  "chunkEndIndexOf sentenceText 20 0 =
     cutPointIn sentenceText (max (0 + 20 - 200) (0 + (7 * 20 + 9) div 10)) (0 + 20)
   \<and> cutPointIn sentenceText (max (0 + 20 - 200) (0 + (7 * 20 + 9) div 10)) (0 + 20) = 17"
proof -
  have h: "\<forall>i \<in> set (scanIndices (0 + 20) (searchStartOf 0 20)).
      sentenceEndAt sentenceText i \<longrightarrow> capitalSentenceEndAt sentenceText i \<and> i < 0 + 20"
    by code_simp
  have v: "cutPointIn sentenceText (max (0 + 20 - 200) (0 + (7 * 20 + 9) div 10)) (0 + 20) = 17"
    by code_simp
  from v cut_point_rule [OF h] show ?thesis by blast
qed

text \<open>
  The claim C6 as it is worded fails for \<open>maxChars = 100\<close> and \<open>overlap = 50\<close> on a text
  of 130 characters whose only sentence end is at index 60: the specification's region
  starts at 50 and gives the cut 61, the code's region starts at 70, holds no sentence
  end and no space, and the cut is 100.
\<close>

theorem cut_ignores_early_sentence_end:
  "chunkEndIndexOf earlyStopText 100 0 = 100
   \<and> specCutPoint earlyStopText 100 50 0 = 61
   \<and> map_option (map length) (splitTextIntoChunks earlyStopText 100 50) = Some [100, 80]"
  by code_simp

section \<open>A chunk longer than maxChars\<close>

lemma replaceCRLF_plain: "CHR 0x0D \<notin> set xs \<Longrightarrow> replaceCRLF xs = xs"
  by (induction xs rule: replaceCRLF.induct) auto

lemma replaceCR_plain: "CHR 0x0D \<notin> set xs \<Longrightarrow> replaceCR xs = xs"
  by (induction xs) (auto simp: replaceCR_def)

lemma collapse_plain_prefix:
  "\<forall>c \<in> set xs. \<not> isWhitespace c \<Longrightarrow> collapseWhitespace (xs @ ys) = xs @ collapseWhitespace ys"
  by (induction xs) auto

lemma collapse_plain: "\<forall>c \<in> set xs. \<not> isWhitespace c \<Longrightarrow> collapseWhitespace xs = xs"
  using collapse_plain_prefix [of xs "[]"] by simp

lemma letters_plain:
  "\<not> isWhitespace CHR ''a''" "\<not> isWhitespace CHR ''b''" "\<not> isWhitespace CHR ''.''"
  "\<not> isWhitespace CHR ''A''" "isWhitespace CHR '' ''"
  by (simp_all add: isWhitespace_def)

lemma clean_overlong: "cleanText overlongText = overlongText"
proof -
  have 1: "replaceCRLF overlongText = overlongText"
    by (rule replaceCRLF_plain) (simp add: overlongText_def)
  have 2: "replaceCR overlongText = overlongText"
    by (rule replaceCR_plain) (simp add: overlongText_def)
  have 3: "collapseWhitespace overlongText = overlongText"
    by (simp add: overlongText_def collapse_plain_prefix collapse_plain letters_plain)
  have 4: "trim overlongText = overlongText"
    by (rule trim_fixed) (simp add: overlongText_def letters_plain hd_append)
  show ?thesis by (simp only: cleanText_def 1 2 3 4)
qed

lemma length_overlong: "length overlongText = 1563"
  by (simp add: overlongText_def)

lemma overlong_first_cut: "chunkEndIndexOf overlongText 1500 0 = 1501"
proof -
  have "sentenceEndAt overlongText 1500"
    by (simp add: sentenceEndAt_def charAt_def overlongText_def nth_append
        unchangedByToUpperCase_def)
  then have "find (sentenceEndAt overlongText) (scanIndices 1500 1300) = Some 1500"
    by (auto simp: find_scan_Some)
  then show ?thesis
    by (simp add: chunkEndIndexOf_def searchStartOf_def sentenceCut_def)
qed

lemma overlong_first_chunk:
  "trim (slice overlongText 0 1501) = replicate 1500 CHR ''a'' @ ''.''"
proof -
  have "slice overlongText 0 1501 = replicate 1500 CHR ''a'' @ ''.''"
    by (simp add: slice_def overlongText_def)
  moreover have "trim (replicate 1500 CHR ''a'' @ ''.'') = replicate 1500 CHR ''a'' @ ''.''"
    by (rule trim_fixed) (simp add: letters_plain hd_append)
  ultimately show ?thesis by simp
qed

lemma overlong_last_chunk:
  "trim (drop 1301 overlongText) = replicate 199 CHR ''a'' @ ''. A'' @ replicate 60 CHR ''b''"
proof -
  have "drop 1301 overlongText = replicate 199 CHR ''a'' @ ''. A'' @ replicate 60 CHR ''b''"
    by (simp add: overlongText_def)
  moreover have "trim (replicate 199 CHR ''a'' @ ''. A'' @ replicate 60 CHR ''b'')
      = replicate 199 CHR ''a'' @ ''. A'' @ replicate 60 CHR ''b''"
    by (rule trim_fixed) (simp add: letters_plain hd_append)
  ultimately show ?thesis by simp
qed

lemma overlong_loop:
  "chunkLoop overlongText 1500 200 0 [] =
     Some [replicate 1500 CHR ''a'' @ ''.'',
           replicate 199 CHR ''a'' @ ''. A'' @ replicate 60 CHR ''b'']"
proof -
  have first: "chunkLoop overlongText 1500 200 0 [] =
      chunkLoop overlongText 1500 200 1301 [replicate 1500 CHR ''a'' @ ''.'']"
    by (subst chunkLoop.simps)
       (simp add: length_overlong overlong_first_cut overlong_first_chunk nextStartIndex_def
          pushIfSubstantial_def)
  have last: "chunkLoop overlongText 1500 200 1301 [replicate 1500 CHR ''a'' @ ''.''] =
      Some [replicate 1500 CHR ''a'' @ ''.'',
            replicate 199 CHR ''a'' @ ''. A'' @ replicate 60 CHR ''b'']"
    by (subst chunkLoop.simps)
       (simp add: length_overlong overlong_last_chunk pushIfSubstantial_def)
  show ?thesis by (simp only: first last)
qed

text \<open>
  C10 does not hold of the code. The first loop starts at \<open>i = endIndex\<close>, the index
  just after the window, and cuts at \<open>i + 1\<close>: when the character at \<open>endIndex\<close> is a
  terminator followed by a space and a capital, the chunk has \<open>maxChars + 1\<close> characters.
  With the default parameters, on 1500 letters followed by a sentence end, the first
  chunk has 1501 characters.
\<close>

theorem first_chunk_exceeds_maxChars:
  "length overlongText = 1563
   \<and> splitTextIntoChunks overlongText 1500 200 =
       Some [replicate 1500 CHR ''a'' @ ''.'',
             replicate 199 CHR ''a'' @ ''. A'' @ replicate 60 CHR ''b'']
   \<and> length (replicate 1500 CHR ''a'' @ ''.'') = 1501"
  by (simp add: splitTextIntoChunks_def clean_overlong length_overlong overlong_loop)

end
